theory Spec2Isabelle
  imports Complex_Main "HOL-Library.Word"
begin

section \<open>Data model\<close>

text \<open>
  A Python \<open>str\<close> is a sequence of Unicode code points, so a text is a list of code
  point numbers.
\<close>

type_synonym ustring = "nat list"

definition of_ascii :: "string \<Rightarrow> ustring" where
  "of_ascii s = map of_char s"

text \<open>
  A timeline entry is the dict \<open>{'start': .., 'end': .., 'text': ..}\<close>. The field names
  carry the prefix \<open>seg_\<close> because \<open>end\<close> and \<open>text\<close> are reserved words here. The
  times of a timeline entry are finite Python floats, each identified with the real
  number it denotes.
\<close>

record segment =
  seg_start :: real
  seg_end :: real
  seg_text :: ustring

text \<open>
  The dicts are mutable objects and a timeline is a list of references to them. The object
  store maps every reference to the current value of its dict; a timeline is the list of
  references, in order.
\<close>

type_synonym addr = nat
type_synonym heap = "addr \<Rightarrow> segment"

definition timeline_values :: "addr list \<times> heap \<Rightarrow> segment list" where
  "timeline_values r = map (snd r) (fst r)"

section \<open>Float arithmetic\<close>

text \<open>
  The source computes with IEEE doubles. Every subtraction, addition and multiplication
  of the source rounds its exact result to a double; \<open>fl\<close> is that rounding, from the
  exact result to the real number the stored double denotes, and it is a parameter of
  every function below that computes. So \<open>a - b\<close> of the source is \<open>fl (a - b)\<close>, and
  the literal \<open>0.05\<close> is \<open>fl (5 / 100)\<close>. Comparisons and \<open>max\<close> are exact. Overflow
  to an infinity is not covered.

  The proofs use two facts about the rounding: it is monotone and it leaves 0 as it is.
  Rounding to nearest has both, and so has the identity, which is exact arithmetic. A
  number is representable when rounding leaves it as it is; every float the program
  holds is.
\<close>

definition rounding :: "(real \<Rightarrow> real) \<Rightarrow> bool" where
  "rounding fl = ((\<forall>x y. x \<le> y \<longrightarrow> fl x \<le> fl y) \<and> fl 0 = 0)"

definition representable :: "(real \<Rightarrow> real) \<Rightarrow> real \<Rightarrow> bool" where
  "representable fl x = (fl x = x)"

section \<open>Timeline re-indexing after a deletion\<close>

text \<open>
  The body of the loop of \<open>adjust_timeline_for_deletion\<close> for one item: the value the
  dict holds after the iteration.
\<close>

definition delete_item :: "(real \<Rightarrow> real) \<Rightarrow> real \<Rightarrow> real \<Rightarrow> segment \<Rightarrow> segment" where
  "delete_item fl del_start del_end item =
     (let gap = fl (del_end - del_start) in
      if seg_end item \<le> del_start then item
      else if seg_start item \<ge> fl (del_end - fl (5 / 100)) then
        (let item1 = item\<lparr>seg_start := max 0 (fl (seg_start item - gap))\<rparr>
         in item1\<lparr>seg_end := max 0 (fl (seg_end item1 - gap))\<rparr>)
      else item\<lparr>seg_end := max (seg_start item) (fl (seg_end item - gap))\<rparr>)"

text \<open>
  The loop itself: every branch appends the very same object to \<open>new_timeline\<close>, and the
  second and third branch assign to its fields in place.
\<close>

fun deletion_loop ::
    "(real \<Rightarrow> real) \<Rightarrow> real \<Rightarrow> real \<Rightarrow> addr list \<Rightarrow> addr list \<times> heap \<Rightarrow> addr list \<times> heap" where
  "deletion_loop fl del_start del_end [] (new_timeline, h) = (new_timeline, h)"
| "deletion_loop fl del_start del_end (item # rest) (new_timeline, h) =
     deletion_loop fl del_start del_end rest
       (new_timeline @ [item], h(item := delete_item fl del_start del_end (h item)))"

definition adjust_timeline_for_deletion ::
    "(real \<Rightarrow> real) \<Rightarrow> heap \<Rightarrow> addr list \<Rightarrow> real \<Rightarrow> real \<Rightarrow> addr list \<times> heap" where
  "adjust_timeline_for_deletion fl h timeline del_start del_end =
     deletion_loop fl del_start del_end timeline ([], h)"

section \<open>Timeline re-indexing after a patch\<close>

text \<open>
  The source also computes \<open>patch_end_point\<close> and never reads it; it is left out.
\<close>

definition patch_item ::
    "(real \<Rightarrow> real) \<Rightarrow> real \<Rightarrow> real \<Rightarrow> real \<Rightarrow> segment \<Rightarrow> segment" where
  "patch_item fl target_start target_end new_duration item =
     (let old_duration = fl (target_end - target_start);
          diff = fl (new_duration - old_duration)
      in if seg_start item \<ge> fl (target_end - fl (1 / 10)) then
           (let item1 = item\<lparr>seg_start := fl (seg_start item + diff)\<rparr>
            in item1\<lparr>seg_end := fl (seg_end item1 + diff)\<rparr>)
         else if seg_end item > target_start \<and> seg_start item < target_end then
           item\<lparr>seg_end := fl (seg_end item + diff)\<rparr>
         else item)"

fun patch_loop ::
    "(real \<Rightarrow> real) \<Rightarrow> real \<Rightarrow> real \<Rightarrow> real \<Rightarrow> addr list \<Rightarrow> heap \<Rightarrow> heap" where
  "patch_loop fl target_start target_end new_duration [] h = h"
| "patch_loop fl target_start target_end new_duration (item # rest) h =
     patch_loop fl target_start target_end new_duration rest
       (h(item := patch_item fl target_start target_end new_duration (h item)))"

text \<open>The function returns the list it was given.\<close>

definition adjust_timeline_for_patch ::
    "(real \<Rightarrow> real) \<Rightarrow> heap \<Rightarrow> addr list \<Rightarrow> real \<Rightarrow> real \<Rightarrow> real \<Rightarrow> addr list \<times> heap" where
  "adjust_timeline_for_patch fl h timeline target_start target_end new_duration =
     (timeline, patch_loop fl target_start target_end new_duration timeline h)"

section \<open>The scenario timeline\<close>

definition mk_segment :: "real \<Rightarrow> real \<Rightarrow> string \<Rightarrow> segment" where
  "mk_segment s e t = \<lparr>seg_start = s, seg_end = e, seg_text = of_ascii t\<rparr>"

text \<open>Three objects at the references 0, 1 and 2 of an otherwise arbitrary store.\<close>

definition base_heap :: "heap \<Rightarrow> heap" where
  "base_heap h = h(0 := mk_segment 0 5 ''A'', 1 := mk_segment 5 10 ''B'',
                   2 := mk_segment 10 15 ''C'')"

definition base_timeline :: "addr list" where
  "base_timeline = [0, 1, 2]"

definition empty_heap :: heap where
  "empty_heap = (\<lambda>_. mk_segment 0 0 [])"

definition scenario_heap :: heap where
  "scenario_heap = base_heap empty_heap"

section \<open>The ordering invariant of a timeline\<close>

definition non_overlapping :: "segment list \<Rightarrow> bool" where
  "non_overlapping xs = successively (\<lambda>x y. seg_end x \<le> seg_start y) xs"

definition ordering_invariant :: "segment list \<Rightarrow> bool" where
  "ordering_invariant xs =
     (non_overlapping xs \<and> (\<forall>s\<in>set xs. 0 \<le> seg_start s \<and> seg_start s < seg_end s))"

text \<open>The same, but a segment may have length zero.\<close>

definition weak_ordering_invariant :: "segment list \<Rightarrow> bool" where
  "weak_ordering_invariant xs =
     (non_overlapping xs \<and> (\<forall>s\<in>set xs. 0 \<le> seg_start s \<and> seg_start s \<le> seg_end s))"

section \<open>Python string helpers\<close>

text \<open>
  \<open>str.isspace\<close> on one code point, which is also what \<open>\s\<close> matches in a \<open>str\<close>
  pattern: the ASCII controls 9 to 13 and 28 to 31, the space, and the Unicode white space
  U+0085, U+00A0, U+1680, U+2000 to U+200A, U+2028, U+2029, U+202F, U+205F, U+3000.
\<close>

definition py_isspace :: "nat \<Rightarrow> bool" where
  "py_isspace c =
     ((9 \<le> c \<and> c \<le> 13) \<or> (28 \<le> c \<and> c \<le> 32) \<or> c = 133 \<or> c = 160 \<or> c = 5760
      \<or> (8192 \<le> c \<and> c \<le> 8202) \<or> c = 8232 \<or> c = 8233 \<or> c = 8239 \<or> c = 8287
      \<or> c = 12288)"

text \<open>\<open>str.strip()\<close>: white space removed at both ends.\<close>

definition strip :: "ustring \<Rightarrow> ustring" where
  "strip s = rev (dropWhile py_isspace (rev (dropWhile py_isspace s)))"

section \<open>The sentence merger of \<open>get_transcription_with_timestamps\<close>\<close>

text \<open>
  The times of a fragment are what \<open>json.loads\<close> makes of the transcription's answer:
  a number, or one of the floats \<open>Infinity\<close>, \<open>-Infinity\<close> and \<open>NaN\<close>, which it accepts.
  \<open>pf_le\<close> and \<open>pf_lt\<close> are Python's \<open><=\<close> and \<open><\<close> on them: every comparison with
  \<open>NaN\<close> is false. The merger only compares and copies times, so no rounding occurs.
\<close>

datatype pyfloat = Finite real | PosInf | NegInf | NaN

fun pf_le :: "pyfloat \<Rightarrow> pyfloat \<Rightarrow> bool" where
  "pf_le NaN y = False"
| "pf_le x NaN = False"
| "pf_le NegInf y = True"
| "pf_le x PosInf = True"
| "pf_le (Finite a) (Finite b) = (a \<le> b)"
| "pf_le x y = False"

fun pf_lt :: "pyfloat \<Rightarrow> pyfloat \<Rightarrow> bool" where
  "pf_lt NaN y = False"
| "pf_lt x NaN = False"
| "pf_lt PosInf y = False"
| "pf_lt x NegInf = False"
| "pf_lt NegInf y = True"
| "pf_lt x PosInf = True"
| "pf_lt (Finite a) (Finite b) = (a < b)"

record fragment =
  frag_start :: pyfloat
  frag_end :: pyfloat
  frag_text :: ustring

definition mk_fragment :: "real \<Rightarrow> real \<Rightarrow> string \<Rightarrow> fragment" where
  "mk_fragment s e t = \<lparr>frag_start = Finite s, frag_end = Finite e, frag_text = of_ascii t\<rparr>"

text \<open>
  The loop over \<open>raw_data\<close>, the list of fragment dicts that \<open>json.loads\<close> has just
  built (so no two entries are the same object, and the in-place updates of the source are
  updates of values here). \<open>merged_data\<close> and \<open>buffer\<close> are the loop's state;
  \<open>real_duration\<close> is the measured length of the audio, a finite float. The fragments
  are taken to carry a number under \<open>start\<close> and \<open>end\<close> and a string under \<open>text\<close>;
  anything else raises in the source and the function returns the empty list.
\<close>

definition terminator :: "nat \<Rightarrow> bool" where
  "terminator c = (c = 46 \<or> c = 63 \<or> c = 33)"

fun merge_loop ::
    "real \<Rightarrow> fragment list \<Rightarrow> fragment list \<times> fragment option
       \<Rightarrow> fragment list \<times> fragment option" where
  "merge_loop real_duration [] (merged_data, buffer) = (merged_data, buffer)"
| "merge_loop real_duration (item # rest) (merged_data, buffer) =
     (if pf_le (frag_end item) (frag_start item)
      then merge_loop real_duration rest (merged_data, buffer)
      else if pf_le (Finite real_duration) (frag_start item)
      then merge_loop real_duration rest (merged_data, buffer)
      else
        let item1 = (if pf_lt (Finite real_duration) (frag_end item)
                     then item\<lparr>frag_end := Finite real_duration\<rparr> else item);
            buffer1 = (case buffer of
                None \<Rightarrow> item1
              | Some b \<Rightarrow> b\<lparr>frag_text := strip (frag_text b) @ [32] @ strip (frag_text item1),
                            frag_end := frag_end item1\<rparr>);
            current_text = strip (frag_text buffer1)
        in if current_text \<noteq> [] \<and> terminator (last current_text)
           then merge_loop real_duration rest (merged_data @ [buffer1], None)
           else merge_loop real_duration rest (merged_data, Some buffer1))"

text \<open>After the loop a buffer that is still open is emitted as the last segment.\<close>

definition merge_fragments :: "real \<Rightarrow> fragment list \<Rightarrow> fragment list" where
  "merge_fragments real_duration raw_data =
     (case merge_loop real_duration raw_data ([], None) of
        (merged_data, None) \<Rightarrow> merged_data
      | (merged_data, Some b) \<Rightarrow> merged_data @ [b])"

section \<open>\<open>normalize_text_strict\<close>\<close>

text \<open>
  The character class of the first substitution keeps the Hangul syllables U+AC00 to
  U+D7A3, the ASCII letters and the digits.
\<close>

definition keep_char :: "nat \<Rightarrow> bool" where
  "keep_char c =
     ((44032 \<le> c \<and> c \<le> 55203) \<or> (97 \<le> c \<and> c \<le> 122) \<or> (65 \<le> c \<and> c \<le> 90)
      \<or> (48 \<le> c \<and> c \<le> 57))"

text \<open>\<open>re.sub(r'\s+', ' ', text)\<close>: every maximal run of white space becomes one space.\<close>

function collapse_whitespace :: "ustring \<Rightarrow> ustring" where
  "collapse_whitespace [] = []"
| "collapse_whitespace (c # cs) =
     (if py_isspace c then 32 # collapse_whitespace (dropWhile py_isspace cs)
      else c # collapse_whitespace cs)"
  by pat_completeness auto
termination
  by (relation "measure length") (auto simp: length_dropWhile_le less_Suc_eq_le)

definition normalize_text_strict :: "ustring \<Rightarrow> ustring" where
  "normalize_text_strict text0 =
     (let text1 = map (\<lambda>c. if keep_char c then c else 32) text0;
          text2 = strip (collapse_whitespace text1)
      in text2)"

section \<open>\<open>add_silence_padding\<close>\<close>

text \<open>
  The \<open>wave\<close> module is a library: its reader and its writer are parameters of the
  model. The reader gives the channel count, the sample width, the frame rate and the
  frames, or raises \<open>wave.Error\<close>, or raises something else (\<open>EOFError\<close> on a format
  chunk that is cut short); the writer gives the bytes of the new container, or \<open>None\<close>
  when it raises. \<open>wave.Error\<close> comes from \<open>wave.open\<close>, before any of \<open>CHANNELS\<close>,
  \<open>SAMPWIDTH\<close>, \<open>FRAMERATE\<close> and \<open>raw_data\<close> is assigned, so the defaults stand in
  that branch; any other exception reaches the outer handler, which returns \<open>None\<close>. The
  payload is \<open>None\<close> when the caller passes Python's \<open>None\<close>. The product
  \<open>FRAMERATE * duration_sec\<close> is a float product and is rounded; \<open>int\<close> of a float
  truncates towards zero, and a byte string times a negative count is empty.
\<close>

type_synonym byte = "8 word"

datatype wave_read_result = WaveData nat nat nat "byte list" | WaveError | OtherException

definition RIFF :: "byte list" where
  "RIFF = [0x52, 0x49, 0x46, 0x46]"

definition py_int :: "real \<Rightarrow> int" where
  "py_int x = (if 0 \<le> x then \<lfloor>x\<rfloor> else \<lceil>x\<rceil>)"

definition add_silence_padding ::
    "(real \<Rightarrow> real) \<Rightarrow> (byte list \<Rightarrow> wave_read_result)
      \<Rightarrow> (nat \<Rightarrow> nat \<Rightarrow> nat \<Rightarrow> byte list \<Rightarrow> byte list option)
      \<Rightarrow> byte list option \<Rightarrow> real \<Rightarrow> byte list option" where
  "add_silence_padding fl wave_read wave_write audio_bytes duration_sec =
     (case audio_bytes of
        None \<Rightarrow> None
      | Some b \<Rightarrow>
          if b = [] \<or> length b < 100 then None
          else
            (case (if take 4 b = RIFF
                   then (case wave_read b of
                           WaveData c s f frames \<Rightarrow> Some (c, s, f, frames)
                         | WaveError \<Rightarrow> Some (1, 2, 24000, b)
                         | OtherException \<Rightarrow> None)
                   else Some (1, 2, 24000, b)) of
               None \<Rightarrow> None
             | Some (CHANNELS, SAMPWIDTH, FRAMERATE, raw_data) \<Rightarrow>
                 let num_silent_frames = py_int (fl (real FRAMERATE * duration_sec));
                     silent_data = replicate (nat (num_silent_frames * int CHANNELS * int SAMPWIDTH)) 0;
                     final_data = silent_data @ raw_data
                 in wave_write CHANNELS SAMPWIDTH FRAMERATE final_data))"

text \<open>
  A payload of 100 bytes that begins with \<open>RIFF\<close> and \<open>WAVE\<close> and whose format chunk
  declares 4 bytes where the reader needs 14.
\<close>

definition truncated_fmt_wav :: "byte list" where
  "truncated_fmt_wav =
     RIFF @ [92, 0, 0, 0] @ [0x57, 0x41, 0x56, 0x45] @ [0x66, 0x6D, 0x74, 0x20]
       @ [4, 0, 0, 0] @ [1, 0, 1, 0] @ replicate 76 0"

section \<open>The two edit buttons of \<open>main\<close>\<close>

text \<open>
  What the two handlers read and write: the audio file at \<open>audio_full_path\<close> (\<open>None\<close>
  when it does not exist), the entry \<open>verify_key\<close> of the session state (\<open>None\<close> when
  the key is absent) and the segment objects. \<open>delete_audio_range\<close> and
  \<open>patch_audio_segment\<close> work through the audio library and are parameters, as are the
  speech service's answer \<open>raw_audio\<close> and the measurement of the new clip's duration
  (\<open>None\<close> when reading the clip raises, which ends the handler).
\<close>

record session =
  audio_file :: "byte list option"
  verify_timeline :: "addr list option"
  objects :: heap

definition delete_button ::
    "(real \<Rightarrow> real) \<Rightarrow> (byte list \<Rightarrow> real \<Rightarrow> real \<Rightarrow> byte list option)
      \<Rightarrow> session \<Rightarrow> real \<Rightarrow> real \<Rightarrow> session" where
  "delete_button fl delete_audio_range s del_start del_end =
     (case audio_file s of
        None \<Rightarrow> s
      | Some original_bytes \<Rightarrow>
          (case delete_audio_range original_bytes del_start del_end of
             None \<Rightarrow> s
           | Some new_audio_bytes \<Rightarrow>
               if new_audio_bytes = [] then s
               else
                 let s1 = s\<lparr>audio_file := Some new_audio_bytes\<rparr>
                 in (case verify_timeline s1 of
                       None \<Rightarrow> s1
                     | Some old_timeline \<Rightarrow>
                         let (new_timeline, h) =
                               adjust_timeline_for_deletion fl (objects s1) old_timeline
                                 del_start del_end
                         in s1\<lparr>verify_timeline := Some new_timeline, objects := h\<rparr>)))"

definition patch_button ::
    "(real \<Rightarrow> real) \<Rightarrow> (byte list \<Rightarrow> wave_read_result)
      \<Rightarrow> (nat \<Rightarrow> nat \<Rightarrow> nat \<Rightarrow> byte list \<Rightarrow> byte list option)
      \<Rightarrow> (byte list \<Rightarrow> real option)
      \<Rightarrow> (byte list \<Rightarrow> byte list \<Rightarrow> real \<Rightarrow> real \<Rightarrow> byte list option)
      \<Rightarrow> session \<Rightarrow> ustring \<Rightarrow> byte list option \<Rightarrow> real \<Rightarrow> real \<Rightarrow> session" where
  "patch_button fl wave_read wave_write measure_duration patch_audio_segment s patch_text
       raw_audio start_time end_time =
     (if strip patch_text = [] then s
      else
        (case add_silence_padding fl wave_read wave_write raw_audio (fl (1 / 10)) of
           None \<Rightarrow> s
         | Some new_part \<Rightarrow>
             if new_part = [] then s
             else
               (case audio_file s of
                  None \<Rightarrow> s
                | Some orig \<Rightarrow>
                    (case measure_duration new_part of
                       None \<Rightarrow> s
                     | Some new_duration \<Rightarrow>
                         (case patch_audio_segment orig new_part start_time end_time of
                            None \<Rightarrow> s
                          | Some patched \<Rightarrow>
                              if patched = [] then s
                              else
                                let s1 = s\<lparr>audio_file := Some patched\<rparr>
                                in (case verify_timeline s1 of
                                      None \<Rightarrow> s1
                                    | Some old_timeline \<Rightarrow>
                                        let (new_timeline, h) =
                                              adjust_timeline_for_patch fl (objects s1) old_timeline
                                                start_time end_time new_duration
                                        in s1\<lparr>verify_timeline := Some new_timeline, objects := h\<rparr>))))))"

text \<open>
  The state after a full commit: the new audio in the file and, when the session holds a
  timeline, the re-indexed timeline and objects \<open>r\<close> in its place.
\<close>

definition commit :: "session \<Rightarrow> byte list \<Rightarrow> (addr list \<Rightarrow> addr list \<times> heap) \<Rightarrow> session" where
  "commit s new_audio reindex =
     (case verify_timeline s of
        None \<Rightarrow> s\<lparr>audio_file := Some new_audio\<rparr>
      | Some old_timeline \<Rightarrow>
          s\<lparr>audio_file := Some new_audio,
            verify_timeline := Some (fst (reindex old_timeline)),
            objects := snd (reindex old_timeline)\<rparr>)"

text \<open>A session that holds the audio bytes [1] and the scenario timeline.\<close>

definition scenario_session :: session where
  "scenario_session =
     \<lparr>audio_file = Some [1], verify_timeline = Some base_timeline, objects = scenario_heap\<rparr>"

section \<open>Auxiliary notions for the proofs\<close>

text \<open>Both loops assign to every object of the list in turn.\<close>

definition in_place :: "(segment \<Rightarrow> segment) \<Rightarrow> addr list \<Rightarrow> heap \<Rightarrow> heap" where
  "in_place f rs h = foldl (\<lambda>h a. h(a := f (h a))) h rs"

text \<open>
  The merger's loop taken apart. A fragment is discarded by the two guards at the head of
  the loop body; the end of a fragment that passes them is clamped; the rest of the body
  extends the buffer by the fragment and closes it at a terminator, and the buffer left
  open at the end is emitted.
\<close>

definition discarded :: "real \<Rightarrow> fragment \<Rightarrow> bool" where
  "discarded d item =
     (pf_le (frag_end item) (frag_start item) \<or> pf_le (Finite d) (frag_start item))"

definition clamp_end :: "real \<Rightarrow> fragment \<Rightarrow> fragment" where
  "clamp_end d item =
     (if pf_lt (Finite d) (frag_end item) then item\<lparr>frag_end := Finite d\<rparr> else item)"

definition extend_buffer :: "fragment option \<Rightarrow> fragment \<Rightarrow> fragment" where
  "extend_buffer buffer item1 =
     (case buffer of
        None \<Rightarrow> item1
      | Some b \<Rightarrow> b\<lparr>frag_text := strip (frag_text b) @ [32] @ strip (frag_text item1),
                    frag_end := frag_end item1\<rparr>)"

definition closes :: "fragment \<Rightarrow> bool" where
  "closes b = (strip (frag_text b) \<noteq> [] \<and> terminator (last (strip (frag_text b))))"

fun accumulate :: "fragment option \<Rightarrow> fragment list \<Rightarrow> fragment list" where
  "accumulate buffer [] = (case buffer of None \<Rightarrow> [] | Some b \<Rightarrow> [b])"
| "accumulate buffer (item1 # rest) =
     (if closes (extend_buffer buffer item1)
      then extend_buffer buffer item1 # accumulate None rest
      else accumulate (Some (extend_buffer buffer item1)) rest)"

definition within_duration :: "real \<Rightarrow> fragment \<Rightarrow> bool" where
  "within_duration d s = (pf_le (frag_end s) (Finite d) \<and> pf_lt (frag_start s) (Finite d))"

definition canonical_text :: "ustring \<Rightarrow> bool" where
  "canonical_text out =
     ((\<forall>c\<in>set out. keep_char c \<or> c = 32)
      \<and> successively (\<lambda>a b. \<not> (a = 32 \<and> b = 32)) out
      \<and> (out = [] \<or> (\<not> py_isspace (hd out) \<and> \<not> py_isspace (last out))))"

lemmas scenario_defs = timeline_values_def adjust_timeline_for_deletion_def
  adjust_timeline_for_patch_def scenario_heap_def base_heap_def base_timeline_def
  delete_item_def patch_item_def mk_segment_def ordering_invariant_def
  weak_ordering_invariant_def non_overlapping_def empty_heap_def

section \<open>Facts about the rounding\<close>

lemma rounding_mono: "rounding fl \<Longrightarrow> x \<le> y \<Longrightarrow> fl x \<le> fl y"
  by (simp add: rounding_def)

lemma rounding_nonneg: "rounding fl \<Longrightarrow> 0 \<le> x \<Longrightarrow> 0 \<le> fl x"
  using rounding_mono [of fl 0 x] by (simp add: rounding_def)

lemma rounding_le: "rounding fl \<Longrightarrow> representable fl b \<Longrightarrow> x \<le> b \<Longrightarrow> fl x \<le> b"
  using rounding_mono [of fl x b] by (simp add: representable_def)

lemma rounding_ge: "rounding fl \<Longrightarrow> representable fl a \<Longrightarrow> a \<le> x \<Longrightarrow> a \<le> fl x"
  using rounding_mono [of fl a x] by (simp add: representable_def)

lemma rounding_id: "rounding id"
  by (simp add: rounding_def)

lemma representable_id: "representable id x"
  by (simp add: representable_def)

section \<open>Facts about the in-place loops\<close>

lemma in_place_Nil: "in_place f [] h = h"
  by (simp add: in_place_def)

lemma in_place_Cons: "in_place f (a # rs) h = in_place f rs (h(a := f (h a)))"
  by (simp add: in_place_def)

lemma deletion_loop_eq:
  "deletion_loop fl ds de rs (acc, h) = (acc @ rs, in_place (delete_item fl ds de) rs h)"
  by (induction rs arbitrary: acc h) (simp_all add: in_place_Nil in_place_Cons)

lemma patch_loop_eq:
  "patch_loop fl ts te nd rs h = in_place (patch_item fl ts te nd) rs h"
  by (induction rs arbitrary: h) (simp_all add: in_place_Nil in_place_Cons)

lemma in_place_frame: "a \<notin> set rs \<Longrightarrow> in_place f rs h a = h a"
  by (induction rs arbitrary: h) (simp_all add: in_place_Nil in_place_Cons)

lemma in_place_distinct: "distinct rs \<Longrightarrow> a \<in> set rs \<Longrightarrow> in_place f rs h a = f (h a)"
  by (induction rs arbitrary: h) (auto simp: in_place_Nil in_place_Cons in_place_frame)

lemma in_place_preserves:
  assumes "\<And>s. P s \<Longrightarrow> P (f s)" "\<forall>a\<in>S. P (h a)" "set rs \<subseteq> S"
  shows "\<forall>a\<in>S. P (in_place f rs h a)"
  using assms(2,3)
proof (induction rs arbitrary: h)
  case Nil
  then show ?case by (simp add: in_place_Nil)
next
  case (Cons x rs)
  have "\<forall>a\<in>S. P ((h(x := f (h x))) a)"
    using Cons.prems assms(1) by simp
  then show ?case using Cons by (simp add: in_place_Cons)
qed

lemma in_place_id: "\<forall>a\<in>set rs. f (h a) = h a \<Longrightarrow> in_place f rs h = h"
  by (induction rs) (simp_all add: in_place_Nil in_place_Cons)

section \<open>Facts about one step of the deletion\<close>

lemma delete_item_before:
  "seg_end s \<le> ds \<Longrightarrow> delete_item fl ds de s = s"
  by (simp add: delete_item_def)

lemma delete_item_after:
  assumes "\<not> seg_end s \<le> ds" "fl (de - fl (5 / 100)) \<le> seg_start s"
  shows "seg_start (delete_item fl ds de s) = max 0 (fl (seg_start s - fl (de - ds)))"
    and "seg_end (delete_item fl ds de s) = max 0 (fl (seg_end s - fl (de - ds)))"
  using assms by (simp_all add: delete_item_def Let_def)

lemma delete_item_straddle:
  assumes "\<not> seg_end s \<le> ds" "\<not> fl (de - fl (5 / 100)) \<le> seg_start s"
  shows "seg_start (delete_item fl ds de s) = seg_start s"
    and "seg_end (delete_item fl ds de s) = max (seg_start s) (fl (seg_end s - fl (de - ds)))"
  using assms by (simp_all add: delete_item_def Let_def)

lemma delete_item_ok:
  assumes r: "rounding fl" and s: "0 \<le> seg_start s \<and> seg_start s \<le> seg_end s"
  shows "0 \<le> seg_start (delete_item fl ds de s)
    \<and> seg_start (delete_item fl ds de s) \<le> seg_end (delete_item fl ds de s)"
proof (cases "seg_end s \<le> ds")
  case True
  then show ?thesis using s by (simp add: delete_item_before)
next
  case False
  show ?thesis
  proof (cases "fl (de - fl (5 / 100)) \<le> seg_start s")
    case True
    have "fl (seg_start s - fl (de - ds)) \<le> fl (seg_end s - fl (de - ds))"
      using s by (intro rounding_mono [OF r]) simp
    then show ?thesis
      using delete_item_after [where fl = fl and de = de and ds = ds and s = s, OF False True]
      by (simp add: max_def)
  next
    case True': False
    show ?thesis
      using s delete_item_straddle [where fl = fl and de = de and ds = ds and s = s, OF False True']
      by simp
  qed
qed

lemma threshold_le:
  assumes r: "rounding fl" and e: "representable fl e" and c: "0 \<le> c"
  shows "fl (e - fl c) \<le> e"
proof -
  have "0 \<le> fl c" using r c by (rule rounding_nonneg)
  then show ?thesis by (intro rounding_le [OF r e]) simp
qed

lemma delete_item_empty_range:
  assumes r: "rounding fl" and x: "representable fl x"
    and s: "0 \<le> seg_start s" "0 \<le> seg_end s"
      "representable fl (seg_start s)" "representable fl (seg_end s)"
  shows "delete_item fl x x s = s"
proof (cases "seg_end s \<le> x")
  case True
  then show ?thesis by (simp add: delete_item_before)
next
  case False
  have g: "fl (x - x) = 0" using r by (simp add: rounding_def)
  show ?thesis
  proof (cases "fl (x - fl (5 / 100)) \<le> seg_start s")
    case True
    have "seg_start (delete_item fl x x s) = seg_start s"
      "seg_end (delete_item fl x x s) = seg_end s"
      using delete_item_after [where fl = fl and de = x and ds = x and s = s, OF False True] s g
      by (simp_all add: representable_def)
    moreover have "seg_text (delete_item fl x x s) = seg_text s"
      by (simp add: delete_item_def Let_def)
    ultimately show ?thesis by simp
  next
    case True': False
    have "fl (x - fl (5 / 100)) \<le> x" using threshold_le [OF r x, of "5 / 100"] by simp
    then have "seg_start s \<le> seg_end s" using False True' by simp
    then have "seg_start (delete_item fl x x s) = seg_start s"
      "seg_end (delete_item fl x x s) = seg_end s"
      using delete_item_straddle [where fl = fl and de = x and ds = x and s = s, OF False True'] s g
      by (simp_all add: representable_def)
    moreover have "seg_text (delete_item fl x x s) = seg_text s"
      by (simp add: delete_item_def Let_def)
    ultimately show ?thesis by simp
  qed
qed

text \<open>
  A segment of an ordered timeline that meets a cut which no segment starts inside, and
  whose threshold lies after its start: it ends by the start of the cut and is kept, or
  it starts at or after the end of the cut and is shifted, or it starts by the start of
  the cut and its end is pulled.
\<close>

lemma delete_item_cases:
  assumes r: "rounding fl" and de: "representable fl de"
    and thr: "ds < fl (de - fl (5 / 100))"
    and z: "seg_start z < seg_end z" "\<not> (ds < seg_start z \<and> seg_start z < de)"
  shows "(seg_end z \<le> ds \<and> delete_item fl ds de z = z)
    \<or> (de \<le> seg_start z
        \<and> seg_start (delete_item fl ds de z) = max 0 (fl (seg_start z - fl (de - ds)))
        \<and> seg_end (delete_item fl ds de z) = max 0 (fl (seg_end z - fl (de - ds))))
    \<or> (seg_start z \<le> ds \<and> ds < seg_end z
        \<and> seg_start (delete_item fl ds de z) = seg_start z
        \<and> seg_end (delete_item fl ds de z) = max (seg_start z) (fl (seg_end z - fl (de - ds))))"
proof (cases "seg_end z \<le> ds")
  case True
  then show ?thesis by (simp add: delete_item_before)
next
  case False
  have le: "fl (de - fl (5 / 100)) \<le> de"
    using threshold_le [OF r de, of "5 / 100"] by simp
  show ?thesis
  proof (cases "fl (de - fl (5 / 100)) \<le> seg_start z")
    case True
    then have "de \<le> seg_start z" using thr z(2) by simp
    then show ?thesis
      using delete_item_after [where fl = fl and de = de and ds = ds and s = z, OF False True]
      by simp
  next
    case True': False
    then have "seg_start z \<le> ds" using le z(2) by simp
    then show ?thesis
      using False
        delete_item_straddle [where fl = fl and de = de and ds = ds and s = z, OF False True']
      by simp
  qed
qed

lemma delete_item_pair:
  assumes r: "rounding fl" and de: "representable fl de"
    and thr: "ds < fl (de - fl (5 / 100))"
    and bk: "ds \<le> fl (de - fl (de - ds))"
    and x: "seg_start x < seg_end x" "\<not> (ds < seg_start x \<and> seg_start x < de)"
    and y: "seg_start y < seg_end y" "\<not> (ds < seg_start y \<and> seg_start y < de)"
    and xy: "seg_end x \<le> seg_start y"
  shows "seg_end (delete_item fl ds de x) \<le> seg_start (delete_item fl ds de y)"
proof -
  let ?g = "fl (de - ds)"
  have lt: "ds < de"
    using threshold_le [OF r de, of "5 / 100"] thr by simp
  have shifted: "ds \<le> fl (seg_start y - ?g)" "fl (seg_end x - ?g) \<le> fl (seg_start y - ?g)"
    if "de \<le> seg_start y"
  proof -
    have "fl (de - ?g) \<le> fl (seg_start y - ?g)"
      using that by (intro rounding_mono [OF r]) simp
    then show "ds \<le> fl (seg_start y - ?g)" using bk by simp
    show "fl (seg_end x - ?g) \<le> fl (seg_start y - ?g)"
      using xy by (intro rounding_mono [OF r]) simp
  qed
  from delete_item_cases [OF r de thr x] show ?thesis
  proof (elim disjE conjE)
    assume a: "seg_end x \<le> ds" "delete_item fl ds de x = x"
    from delete_item_cases [OF r de thr y] show ?thesis
    proof (elim disjE conjE)
      assume "delete_item fl ds de y = y"
      then show ?thesis using a xy by simp
    next
      assume b: "de \<le> seg_start y"
        "seg_start (delete_item fl ds de y) = max 0 (fl (seg_start y - ?g))"
      then show ?thesis using a shifted(1) [OF b(1)] by (simp add: max_def)
    next
      assume "seg_start (delete_item fl ds de y) = seg_start y"
      then show ?thesis using a xy by simp
    qed
  next
    assume a: "de \<le> seg_start x"
      "seg_end (delete_item fl ds de x) = max 0 (fl (seg_end x - ?g))"
    then have b: "de \<le> seg_start y" using x(1) xy by simp
    then have "seg_start (delete_item fl ds de y) = max 0 (fl (seg_start y - ?g))"
      using delete_item_cases [OF r de thr y] lt y(1) by auto
    then show ?thesis using a shifted(2) [OF b] by (simp add: max_def)
  next
    assume a: "seg_start x \<le> ds" "ds < seg_end x"
      "seg_end (delete_item fl ds de x) = max (seg_start x) (fl (seg_end x - ?g))"
    then have "ds < seg_start y" using xy by simp
    then have b: "de \<le> seg_start y" using y(2) by simp
    then have "seg_start (delete_item fl ds de y) = max 0 (fl (seg_start y - ?g))"
      using delete_item_cases [OF r de thr y] lt y(1) by auto
    then show ?thesis using a shifted [OF b] by (simp add: max_def)
  qed
qed

section \<open>Facts about one step of the patch\<close>

lemma patch_item_cases:
  assumes r: "rounding fl" and te: "representable fl te"
    and thr: "ts < fl (te - fl (1 / 10))"
    and z: "seg_start z < seg_end z"
      "seg_end z \<le> ts \<or> te \<le> seg_start z \<or> (seg_start z \<le> ts \<and> te \<le> seg_end z)"
  shows "(seg_end z \<le> ts \<and> patch_item fl ts te nd z = z)
    \<or> (te \<le> seg_start z
        \<and> seg_start (patch_item fl ts te nd z) = fl (seg_start z + fl (nd - fl (te - ts)))
        \<and> seg_end (patch_item fl ts te nd z) = fl (seg_end z + fl (nd - fl (te - ts))))
    \<or> (seg_start z \<le> ts \<and> te \<le> seg_end z
        \<and> seg_start (patch_item fl ts te nd z) = seg_start z
        \<and> seg_end (patch_item fl ts te nd z) = fl (seg_end z + fl (nd - fl (te - ts))))"
proof -
  have le: "fl (te - fl (1 / 10)) \<le> te"
    using threshold_le [OF r te, of "1 / 10"] by simp
  show ?thesis
  proof (cases "seg_end z \<le> ts")
    case True
    then have "\<not> fl (te - fl (1 / 10)) \<le> seg_start z" using thr z(1) by simp
    then show ?thesis using True by (simp add: patch_item_def Let_def)
  next
    case False
    show ?thesis
    proof (cases "te \<le> seg_start z")
      case True
      then have "fl (te - fl (1 / 10)) \<le> seg_start z" using le by simp
      then show ?thesis using True by (simp add: patch_item_def Let_def)
    next
      case True': False
      then have c: "seg_start z \<le> ts" "te \<le> seg_end z" using False z(2) by auto
      then have "\<not> fl (te - fl (1 / 10)) \<le> seg_start z" using thr by simp
      then show ?thesis using c False True' by (simp add: patch_item_def Let_def)
    qed
  qed
qed

lemma patch_item_pair:
  assumes r: "rounding fl" and te: "representable fl te"
    and thr: "ts < fl (te - fl (1 / 10))"
    and fwd: "ts \<le> fl (te + fl (nd - fl (te - ts)))"
    and x: "seg_start x < seg_end x"
      "seg_end x \<le> ts \<or> te \<le> seg_start x \<or> (seg_start x \<le> ts \<and> te \<le> seg_end x)"
    and y: "seg_start y < seg_end y"
      "seg_end y \<le> ts \<or> te \<le> seg_start y \<or> (seg_start y \<le> ts \<and> te \<le> seg_end y)"
    and xy: "seg_end x \<le> seg_start y"
  shows "seg_end (patch_item fl ts te nd x) \<le> seg_start (patch_item fl ts te nd y)"
proof -
  let ?d = "fl (nd - fl (te - ts))"
  have lt: "ts < te"
    using threshold_le [OF r te, of "1 / 10"] thr by simp
  have shifted: "ts \<le> fl (seg_start y + ?d)" "fl (seg_end x + ?d) \<le> fl (seg_start y + ?d)"
    if "te \<le> seg_start y"
  proof -
    have "fl (te + ?d) \<le> fl (seg_start y + ?d)"
      using that by (intro rounding_mono [OF r]) simp
    then show "ts \<le> fl (seg_start y + ?d)" using fwd by simp
    show "fl (seg_end x + ?d) \<le> fl (seg_start y + ?d)"
      using xy by (intro rounding_mono [OF r]) simp
  qed
  have after: "seg_start (patch_item fl ts te nd y) = fl (seg_start y + ?d)"
    if "te \<le> seg_start y"
    using patch_item_cases [OF r te thr y, of nd] that lt y(1) by auto
  from patch_item_cases [OF r te thr x, of nd] show ?thesis
  proof (elim disjE conjE)
    assume a: "seg_end x \<le> ts" "patch_item fl ts te nd x = x"
    from patch_item_cases [OF r te thr y, of nd] show ?thesis
    proof (elim disjE conjE)
      assume "patch_item fl ts te nd y = y"
      then show ?thesis using a xy by simp
    next
      assume b: "te \<le> seg_start y"
        "seg_start (patch_item fl ts te nd y) = fl (seg_start y + ?d)"
      then show ?thesis using a shifted(1) [OF b(1)] by simp
    next
      assume "seg_start (patch_item fl ts te nd y) = seg_start y"
      then show ?thesis using a xy by simp
    qed
  next
    assume a: "te \<le> seg_start x" "seg_end (patch_item fl ts te nd x) = fl (seg_end x + ?d)"
    then have b: "te \<le> seg_start y" using x(1) xy by simp
    show ?thesis using a after [OF b] shifted(2) [OF b] by simp
  next
    assume a: "te \<le> seg_end x" "seg_end (patch_item fl ts te nd x) = fl (seg_end x + ?d)"
    then have b: "te \<le> seg_start y" using xy by simp
    show ?thesis using a after [OF b] shifted(2) [OF b] by simp
  qed
qed

lemma patch_item_ok:
  assumes r: "rounding fl" and te: "representable fl te"
    and thr: "ts < fl (te - fl (1 / 10))"
    and fwd: "ts \<le> fl (te + fl (nd - fl (te - ts)))" and ts: "0 \<le> ts"
    and z: "0 \<le> seg_start z" "seg_start z < seg_end z"
      "seg_end z \<le> ts \<or> te \<le> seg_start z \<or> (seg_start z \<le> ts \<and> te \<le> seg_end z)"
  shows "0 \<le> seg_start (patch_item fl ts te nd z)
    \<and> seg_start (patch_item fl ts te nd z) \<le> seg_end (patch_item fl ts te nd z)"
proof -
  let ?d = "fl (nd - fl (te - ts))"
  from patch_item_cases [OF r te thr z(2,3), of nd] show ?thesis
  proof (elim disjE conjE)
    assume "patch_item fl ts te nd z = z"
    then show ?thesis using z by simp
  next
    assume a: "te \<le> seg_start z"
      "seg_start (patch_item fl ts te nd z) = fl (seg_start z + ?d)"
      "seg_end (patch_item fl ts te nd z) = fl (seg_end z + ?d)"
    have "fl (te + ?d) \<le> fl (seg_start z + ?d)"
      using a(1) by (intro rounding_mono [OF r]) simp
    moreover have "fl (seg_start z + ?d) \<le> fl (seg_end z + ?d)"
      using z(2) by (intro rounding_mono [OF r]) simp
    ultimately show ?thesis using a fwd ts by simp
  next
    assume a: "seg_start z \<le> ts" "te \<le> seg_end z"
      "seg_start (patch_item fl ts te nd z) = seg_start z"
      "seg_end (patch_item fl ts te nd z) = fl (seg_end z + ?d)"
    have "fl (te + ?d) \<le> fl (seg_end z + ?d)"
      using a(2) by (intro rounding_mono [OF r]) simp
    then show ?thesis using a fwd z(1) by simp
  qed
qed

section \<open>The ordering invariant on the values of a timeline\<close>

text \<open>Starts grow strictly along an ordered timeline, so no object occurs twice in it.\<close>

lemma ordering_invariant_distinct:
  assumes "ordering_invariant (map h rs)"
  shows "distinct rs"
proof -
  let ?xs = "map h rs"
  have "successively (\<lambda>x y. seg_start x < seg_start y) ?xs"
    using assms unfolding ordering_invariant_def non_overlapping_def
    by (elim conjE successively_mono) force
  then have "sorted_wrt (\<lambda>x y. seg_start x < seg_start y) ?xs"
    by (subst (asm) successively_conv_sorted_wrt) (auto simp: transp_def)
  then have "sorted_wrt (<) (map seg_start ?xs)"
    by (simp add: sorted_wrt_map)
  then have "distinct (map seg_start ?xs)"
    by (simp add: strict_sorted_iff)
  then show ?thesis by (simp add: distinct_map)
qed

lemma deletion_values_order:
  assumes r: "rounding fl" and de: "representable fl de"
    and inv: "ordering_invariant xs"
    and thr: "ds < fl (de - fl (5 / 100))"
    and bk: "ds \<le> fl (de - fl (de - ds))"
    and al: "\<forall>s\<in>set xs. \<not> (ds < seg_start s \<and> seg_start s < de)"
  shows "weak_ordering_invariant (map (delete_item fl ds de) xs)"
proof -
  have "successively (\<lambda>x y. seg_end x \<le> seg_start y) xs"
    using inv by (simp add: ordering_invariant_def non_overlapping_def)
  then have "successively
      (\<lambda>x y. seg_end (delete_item fl ds de x) \<le> seg_start (delete_item fl ds de y)) xs"
  proof (rule successively_mono)
    fix x y assume "x \<in> set xs" "y \<in> set xs" "seg_end x \<le> seg_start y"
    then show "seg_end (delete_item fl ds de x) \<le> seg_start (delete_item fl ds de y)"
      using inv al by (intro delete_item_pair [OF r de thr bk]) (auto simp: ordering_invariant_def)
  qed
  then have "non_overlapping (map (delete_item fl ds de) xs)"
    by (simp add: non_overlapping_def successively_map)
  moreover have "\<forall>s\<in>set xs. 0 \<le> seg_start (delete_item fl ds de s)
      \<and> seg_start (delete_item fl ds de s) \<le> seg_end (delete_item fl ds de s)"
    using inv by (intro ballI delete_item_ok [OF r]) (auto simp: ordering_invariant_def less_imp_le)
  ultimately show ?thesis by (simp add: weak_ordering_invariant_def)
qed

lemma patch_values_order:
  assumes r: "rounding fl" and te: "representable fl te"
    and inv: "ordering_invariant xs"
    and thr: "ts < fl (te - fl (1 / 10))"
    and fwd: "ts \<le> fl (te + fl (nd - fl (te - ts)))" and ts: "0 \<le> ts"
    and al: "\<forall>s\<in>set xs. seg_end s \<le> ts \<or> te \<le> seg_start s
               \<or> (seg_start s \<le> ts \<and> te \<le> seg_end s)"
  shows "weak_ordering_invariant (map (patch_item fl ts te nd) xs)"
proof -
  have "successively (\<lambda>x y. seg_end x \<le> seg_start y) xs"
    using inv by (simp add: ordering_invariant_def non_overlapping_def)
  then have "successively
      (\<lambda>x y. seg_end (patch_item fl ts te nd x) \<le> seg_start (patch_item fl ts te nd y)) xs"
  proof (rule successively_mono)
    fix x y assume "x \<in> set xs" "y \<in> set xs" "seg_end x \<le> seg_start y"
    then show "seg_end (patch_item fl ts te nd x) \<le> seg_start (patch_item fl ts te nd y)"
      using inv al by (intro patch_item_pair [OF r te thr fwd]) (auto simp: ordering_invariant_def)
  qed
  then have "non_overlapping (map (patch_item fl ts te nd) xs)"
    by (simp add: non_overlapping_def successively_map)
  moreover have "\<forall>s\<in>set xs. 0 \<le> seg_start (patch_item fl ts te nd s)
      \<and> seg_start (patch_item fl ts te nd s) \<le> seg_end (patch_item fl ts te nd s)"
    using inv al by (intro ballI patch_item_ok [OF r te thr fwd ts]) (auto simp: ordering_invariant_def)
  ultimately show ?thesis by (simp add: weak_ordering_invariant_def)
qed

section \<open>Order preservation of the two transforms\<close>

text \<open>
  C1, as stated, fails. On the timeline A 0..5, B 5..10, C 10..15, which satisfies the
  ordering invariant, the deletion of 4..10 keeps the start of B at 5 (B starts inside the
  cut and is handled as a segment whose tail is cut) and moves C to 4..9, so B now ends
  after C starts; and the patch of the span 0..10 by a clip of duration 12 extends the end
  of A to 7 while B still starts at 5. All the numbers and all the differences and sums
  taken are small integers, so the arithmetic is exact.
\<close>

theorem reindex_order_counterexample:
  "ordering_invariant (map scenario_heap base_timeline)
   \<and> \<not> non_overlapping
         (timeline_values (adjust_timeline_for_deletion id scenario_heap base_timeline 4 10))
   \<and> \<not> non_overlapping
         (timeline_values (adjust_timeline_for_patch id scenario_heap base_timeline 0 10 12))"
  by (simp add: scenario_defs)

text \<open>
  C1, amended. Let the timeline satisfy the ordering invariant and let the arithmetic
  round monotonically. Deletion: if the threshold the code computes, \<open>del_end - 0.05\<close>,
  lies strictly after \<open>del_start\<close>, the computed gap taken from \<open>del_end\<close> gives a time
  not before \<open>del_start\<close>, and no segment starts strictly inside the cut, then in the
  result no segment overlaps the next, every start is at least 0 and every start is at
  most its end (a segment that is cut away whole keeps length zero). Patch: if the
  threshold the code computes, \<open>target_end - 0.1\<close>, lies strictly after \<open>target_start\<close>,
  which is at least 0, the computed diff added to \<open>target_end\<close> gives a time not before
  \<open>target_start\<close>, and every segment ends by the start of the span, starts at or after
  its end, or covers it, then the result has the same three properties. In exact
  arithmetic the conditions on the computed values say that the cut is longer than 0.05,
  that the span is longer than 0.1 and that the new duration is not negative.
\<close>

theorem reindex_preserves_order_when_aligned:
  assumes r: "rounding fl" and inv: "ordering_invariant (map h timeline)"
  shows "(representable fl del_end
            \<and> del_start < fl (del_end - fl (5 / 100))
            \<and> del_start \<le> fl (del_end - fl (del_end - del_start))
            \<and> (\<forall>a\<in>set timeline. \<not> (del_start < seg_start (h a) \<and> seg_start (h a) < del_end))
          \<longrightarrow> weak_ordering_invariant
                (timeline_values (adjust_timeline_for_deletion fl h timeline del_start del_end)))
       \<and> (representable fl target_end
            \<and> target_start < fl (target_end - fl (1 / 10))
            \<and> 0 \<le> target_start
            \<and> target_start \<le> fl (target_end + fl (new_duration - fl (target_end - target_start)))
            \<and> (\<forall>a\<in>set timeline. seg_end (h a) \<le> target_start \<or> target_end \<le> seg_start (h a)
                   \<or> (seg_start (h a) \<le> target_start \<and> target_end \<le> seg_end (h a)))
          \<longrightarrow> weak_ordering_invariant
                (timeline_values
                  (adjust_timeline_for_patch fl h timeline target_start target_end new_duration)))"
proof -
  have d: "distinct timeline"
    using inv by (rule ordering_invariant_distinct)
  have del: "timeline_values (adjust_timeline_for_deletion fl h timeline del_start del_end)
      = map (delete_item fl del_start del_end) (map h timeline)"
    using d by (simp add: timeline_values_def adjust_timeline_for_deletion_def
        deletion_loop_eq in_place_distinct)
  have pat: "timeline_values
        (adjust_timeline_for_patch fl h timeline target_start target_end new_duration)
      = map (patch_item fl target_start target_end new_duration) (map h timeline)"
    using d by (simp add: timeline_values_def adjust_timeline_for_patch_def
        patch_loop_eq in_place_distinct)
  show ?thesis
    unfolding del pat
  proof (intro conjI impI)
    assume "representable fl del_end
      \<and> del_start < fl (del_end - fl (5 / 100))
      \<and> del_start \<le> fl (del_end - fl (del_end - del_start))
      \<and> (\<forall>a\<in>set timeline. \<not> (del_start < seg_start (h a) \<and> seg_start (h a) < del_end))"
    then show "weak_ordering_invariant
        (map (delete_item fl del_start del_end) (map h timeline))"
      by (intro deletion_values_order [OF r _ inv]) auto
  next
    assume "representable fl target_end
      \<and> target_start < fl (target_end - fl (1 / 10))
      \<and> 0 \<le> target_start
      \<and> target_start \<le> fl (target_end + fl (new_duration - fl (target_end - target_start)))
      \<and> (\<forall>a\<in>set timeline. seg_end (h a) \<le> target_start \<or> target_end \<le> seg_start (h a)
             \<or> (seg_start (h a) \<le> target_start \<and> target_end \<le> seg_end (h a)))"
    then show "weak_ordering_invariant
        (map (patch_item fl target_start target_end new_duration) (map h timeline))"
      by (intro patch_values_order [OF r _ inv]) auto
  qed
qed

text \<open>
  The amended C1 on the scenario timeline in exact arithmetic: the deletion of 5..10 and
  the patch of 5..10 by a clip of duration 7 meet its conditions. The deletion leaves B
  with length zero, so the strict invariant is lost there.
\<close>

theorem reindex_preserves_order_witness:
  "rounding id \<and> ordering_invariant (map scenario_heap base_timeline)
   \<and> weak_ordering_invariant
       (timeline_values (adjust_timeline_for_deletion id scenario_heap base_timeline 5 10))
   \<and> \<not> ordering_invariant
       (timeline_values (adjust_timeline_for_deletion id scenario_heap base_timeline 5 10))
   \<and> weak_ordering_invariant
       (timeline_values (adjust_timeline_for_patch id scenario_heap base_timeline 5 10 7))"
proof -
  have i: "ordering_invariant (map scenario_heap base_timeline)"
    by (simp add: scenario_defs)
  have a: "representable id (10::real) \<and> (5::real) < id (10 - id (5 / 100))
      \<and> (5::real) \<le> id (10 - id (10 - 5))
      \<and> (\<forall>a\<in>set base_timeline.
            \<not> (5 < seg_start (scenario_heap a) \<and> seg_start (scenario_heap a) < 10))"
    by (simp add: scenario_defs representable_def)
  have b: "representable id (10::real) \<and> (5::real) < id (10 - id (1 / 10)) \<and> (0::real) \<le> 5
      \<and> (5::real) \<le> id (10 + id (7 - id (10 - 5)))
      \<and> (\<forall>a\<in>set base_timeline. seg_end (scenario_heap a) \<le> 5 \<or> 10 \<le> seg_start (scenario_heap a)
            \<or> (seg_start (scenario_heap a) \<le> 5 \<and> 10 \<le> seg_end (scenario_heap a)))"
    by (simp add: scenario_defs representable_def)
  have c: "\<not> ordering_invariant
      (timeline_values (adjust_timeline_for_deletion id scenario_heap base_timeline 5 10))"
    by (simp add: scenario_defs)
  from reindex_preserves_order_when_aligned [OF rounding_id i, where del_start = 5
      and del_end = 10 and target_start = 5 and target_end = 10 and new_duration = 7]
    a b c i rounding_id
  show ?thesis by blast
qed

section \<open>No negative and no inverted interval after a deletion\<close>

text \<open>
  C2. If every segment of the timeline has 0 \<open>\<le>\<close> start \<open>\<le>\<close> end and the deleted range
  has positive length, every segment of the timeline that \<open>adjust_timeline_for_deletion\<close>
  returns has 0 \<open>\<le>\<close> start \<open>\<le>\<close> end, whatever the monotone rounding of the
  arithmetic. This holds also when an object occurs more than once in the timeline.
\<close>

theorem deletion_no_negative_no_inverted:
  assumes "rounding fl"
    and "\<forall>a\<in>set timeline. 0 \<le> seg_start (h a) \<and> seg_start (h a) \<le> seg_end (h a)"
    and "del_end - del_start > 0"
  shows "\<forall>s\<in>set (timeline_values
                  (adjust_timeline_for_deletion fl h timeline del_start del_end)).
           0 \<le> seg_start s \<and> seg_start s \<le> seg_end s"
proof -
  let ?h' = "in_place (delete_item fl del_start del_end) timeline h"
  have "\<forall>a\<in>set timeline. 0 \<le> seg_start (?h' a) \<and> seg_start (?h' a) \<le> seg_end (?h' a)"
    by (rule in_place_preserves [where P = "\<lambda>s. 0 \<le> seg_start s \<and> seg_start s \<le> seg_end s"])
       (use assms(1,2) delete_item_ok in auto)
  then show ?thesis
    by (simp add: timeline_values_def adjust_timeline_for_deletion_def deletion_loop_eq)
qed

text \<open>
  C2 on the scenario timeline with the deletion of 6..8 in exact arithmetic, read at each
  of its objects.
\<close>

theorem deletion_no_negative_no_inverted_witness:
  "rounding id
   \<and> list_all (\<lambda>s. 0 \<le> seg_start s \<and> seg_start s \<le> seg_end s) (map scenario_heap base_timeline)
   \<and> (8::real) - 6 > 0
   \<and> list_all (\<lambda>s. 0 \<le> seg_start s \<and> seg_start s \<le> seg_end s)
       (timeline_values (adjust_timeline_for_deletion id scenario_heap base_timeline 6 8))"
proof -
  have a: "\<forall>a\<in>set base_timeline.
      0 \<le> seg_start (scenario_heap a) \<and> seg_start (scenario_heap a) \<le> seg_end (scenario_heap a)"
    by (simp add: scenario_defs)
  have b: "(8::real) - 6 > 0" by simp
  from deletion_no_negative_no_inverted [OF rounding_id a b] a b rounding_id
  show ?thesis by (simp add: list_all_iff)
qed

section \<open>The empty deletion\<close>

text \<open>
  C7. On a timeline whose segments have no negative time (as every TimelineSegment has:
  0 \<open>\<le>\<close> start \<open><\<close> end), the deletion of the empty range x..x returns the same
  segment objects in the same order and leaves every object as it was: start, end and
  text of every segment are unchanged. The times and x are floats, and the arithmetic
  rounds monotonically; in exact arithmetic every number is a float.
\<close>

theorem empty_deletion_noop:
  assumes "rounding fl" and "representable fl x"
    and "\<forall>a\<in>set timeline. 0 \<le> seg_start (h a) \<and> 0 \<le> seg_end (h a)
           \<and> representable fl (seg_start (h a)) \<and> representable fl (seg_end (h a))"
  shows "adjust_timeline_for_deletion fl h timeline x x = (timeline, h)"
  using assms
  by (simp add: adjust_timeline_for_deletion_def deletion_loop_eq in_place_id
      delete_item_empty_range)

text \<open>
  C7 on the scenario timeline with the empty range 7..7, inside segment B, in exact
  arithmetic.
\<close>

theorem empty_deletion_noop_witness:
  "rounding id \<and> representable id (7::real)
   \<and> list_all (\<lambda>s. 0 \<le> seg_start s \<and> 0 \<le> seg_end s) (map scenario_heap base_timeline)
   \<and> adjust_timeline_for_deletion id scenario_heap base_timeline 7 7
       = (base_timeline, scenario_heap)"
proof -
  have a: "\<forall>a\<in>set base_timeline.
      0 \<le> seg_start (scenario_heap a) \<and> 0 \<le> seg_end (scenario_heap a)
      \<and> representable id (seg_start (scenario_heap a))
      \<and> representable id (seg_end (scenario_heap a))"
    by (simp add: scenario_defs representable_def)
  from empty_deletion_noop [OF rounding_id representable_id a] a rounding_id
    representable_id [of 7]
  show ?thesis by (simp add: list_all_iff)
qed

section \<open>The transforms work in place\<close>

text \<open>
  C3, as stated, fails. After the deletion of 6..8 on the scenario timeline the object of
  segment B, which the caller's timeline still refers to, ends at 8 and no longer at 10, and
  the returned timeline is made of the caller's objects; the same after the patch of 5..10
  by a clip of duration 7, where it ends at 12.
\<close>

theorem reindex_not_pure_counterexample:
  "snd (adjust_timeline_for_deletion id scenario_heap base_timeline 6 8) 1 \<noteq> scenario_heap 1
   \<and> fst (adjust_timeline_for_deletion id scenario_heap base_timeline 6 8) = base_timeline
   \<and> snd (adjust_timeline_for_patch id scenario_heap base_timeline 5 10 7) 1 \<noteq> scenario_heap 1
   \<and> fst (adjust_timeline_for_patch id scenario_heap base_timeline 5 10 7) = base_timeline"
  by (simp add: scenario_defs)

text \<open>
  C3, amended. Both transforms work in place. The timeline they return is made of the
  segment objects of the input timeline, in the same order. Every segment object that is
  not in the timeline is left unchanged. When no object occurs twice in the timeline,
  every object of it holds after the call the value that the loop body computes from its
  old value: the re-indexed times where a branch assigns them, the old value where none
  does.
\<close>

theorem reindex_in_place_frame:
  "fst (adjust_timeline_for_deletion fl h timeline del_start del_end) = timeline
   \<and> (\<forall>a. a \<notin> set timeline
         \<longrightarrow> snd (adjust_timeline_for_deletion fl h timeline del_start del_end) a = h a)
   \<and> (distinct timeline \<longrightarrow> (\<forall>a\<in>set timeline.
         snd (adjust_timeline_for_deletion fl h timeline del_start del_end) a
           = delete_item fl del_start del_end (h a)))
   \<and> fst (adjust_timeline_for_patch fl h timeline target_start target_end new_duration) = timeline
   \<and> (\<forall>a. a \<notin> set timeline
         \<longrightarrow> snd (adjust_timeline_for_patch fl h timeline target_start target_end new_duration) a
             = h a)
   \<and> (distinct timeline \<longrightarrow> (\<forall>a\<in>set timeline.
         snd (adjust_timeline_for_patch fl h timeline target_start target_end new_duration) a
           = patch_item fl target_start target_end new_duration (h a)))"
  by (simp add: adjust_timeline_for_deletion_def deletion_loop_eq
      adjust_timeline_for_patch_def patch_loop_eq in_place_frame in_place_distinct)

text \<open>
  The amended C3 on the scenario timeline in exact arithmetic: the object at reference 3
  is not in the timeline and keeps its value; of the objects of the timeline, C holds its
  re-indexed value and A, which no branch assigns to, its old one.
\<close>

theorem reindex_in_place_frame_witness:
  "3 \<notin> set base_timeline \<and> distinct base_timeline \<and> 2 \<in> set base_timeline
   \<and> 0 \<in> set base_timeline
   \<and> snd (adjust_timeline_for_deletion id scenario_heap base_timeline 6 8) 3 = scenario_heap 3
   \<and> snd (adjust_timeline_for_deletion id scenario_heap base_timeline 6 8) 2
       = mk_segment 8 13 ''C''
   \<and> snd (adjust_timeline_for_deletion id scenario_heap base_timeline 6 8) 0
       = mk_segment 0 5 ''A''
   \<and> snd (adjust_timeline_for_patch id scenario_heap base_timeline 5 10 7) 3 = scenario_heap 3
   \<and> snd (adjust_timeline_for_patch id scenario_heap base_timeline 5 10 7) 2
       = mk_segment 12 17 ''C''
   \<and> snd (adjust_timeline_for_patch id scenario_heap base_timeline 5 10 7) 0
       = mk_segment 0 5 ''A''"
proof -
  have a: "3 \<notin> set base_timeline" "distinct base_timeline" "2 \<in> set base_timeline"
    "0 \<in> set base_timeline"
    by (simp_all add: base_timeline_def)
  have b: "delete_item id 6 8 (scenario_heap 2) = mk_segment 8 13 ''C''"
    "patch_item id 5 10 7 (scenario_heap 2) = mk_segment 12 17 ''C''"
    "delete_item id 6 8 (scenario_heap 0) = mk_segment 0 5 ''A''"
    "patch_item id 5 10 7 (scenario_heap 0) = mk_segment 0 5 ''A''"
    by (simp_all add: scenario_defs)
  from reindex_in_place_frame [of id scenario_heap base_timeline 6 8 5 10 7] a b
  show ?thesis by auto
qed

section \<open>Scenarios\<close>

lemma between_representable:
  assumes r: "rounding fl" and a: "fl a = a" and b: "fl b = b" and x: "a \<le> x" "x \<le> b"
  shows "a \<le> fl x \<and> fl x \<le> b"
  using rounding_mono [OF r x(1)] rounding_mono [OF r x(2)] a b by simp

text \<open>
  C5. On the timeline A 0..5, B 5..10, C 10..15 the deletion of 6..8 (gap 2) leaves A as it
  is, keeps the start of B and cuts its end to 8, and moves C to 8..13. This holds for
  every monotone rounding that leaves the whole numbers up to 17 as they are, as that of
  doubles does: the threshold \<open>8 - 0.05\<close> then lies between 7 and 8, and every other
  number computed is whole.
\<close>

theorem deletion_scenario:
  assumes r: "rounding fl" and i: "\<forall>n\<le>17. fl (real n) = real n"
  shows "timeline_values (adjust_timeline_for_deletion fl (base_heap h) base_timeline 6 8)
     = [mk_segment 0 5 ''A'', mk_segment 5 8 ''B'', mk_segment 8 13 ''C'']"
proof -
  have n: "fl 1 = 1" "fl 2 = 2" "fl 7 = 7" "fl 8 = 8" "fl 13 = 13"
    using i [rule_format, of 1] i [rule_format, of 2] i [rule_format, of 7]
      i [rule_format, of 8] i [rule_format, of 13] by simp_all
  have c: "0 \<le> fl (5 / 100) \<and> fl (5 / 100) \<le> 1"
    using between_representable [OF r _ n(1), of 0 "5 / 100"] r by (simp add: rounding_def)
  then have t: "7 \<le> fl (8 - fl (5 / 100)) \<and> fl (8 - fl (5 / 100)) \<le> 8"
    by (intro between_representable [OF r n(3) n(4)]) simp_all
  have g: "fl (8 - 6) = 2" using n(2) by simp
  have A: "delete_item fl 6 8 (mk_segment 0 5 ''A'') = mk_segment 0 5 ''A''"
    by (simp add: delete_item_before mk_segment_def)
  have B: "delete_item fl 6 8 (mk_segment 5 10 ''B'') = mk_segment 5 8 ''B''"
    using t g n(4) by (simp add: delete_item_def mk_segment_def)
  have C: "delete_item fl 6 8 (mk_segment 10 15 ''C'') = mk_segment 8 13 ''C''"
    using t g n(4,5) by (simp add: delete_item_def mk_segment_def)
  have "timeline_values (adjust_timeline_for_deletion fl (base_heap h) base_timeline 6 8)
      = map (delete_item fl 6 8) (map (base_heap h) base_timeline)"
    by (simp add: timeline_values_def adjust_timeline_for_deletion_def deletion_loop_eq
        in_place_distinct base_timeline_def)
  then show ?thesis by (simp add: base_heap_def base_timeline_def A B C)
qed

text \<open>C5 in exact arithmetic.\<close>

theorem deletion_scenario_witness:
  "rounding id \<and> list_all (\<lambda>n. id (real n) = real n) [0..<18]
   \<and> timeline_values (adjust_timeline_for_deletion id scenario_heap base_timeline 6 8)
     = [mk_segment 0 5 ''A'', mk_segment 5 8 ''B'', mk_segment 8 13 ''C'']"
proof -
  have i: "\<forall>n\<le>17. id (real n) = real n" by simp
  have l: "list_all (\<lambda>n. id (real n) = real n) [0..<18]" by (simp add: list_all_iff)
  have "timeline_values (adjust_timeline_for_deletion id scenario_heap base_timeline 6 8)
     = [mk_segment 0 5 ''A'', mk_segment 5 8 ''B'', mk_segment 8 13 ''C'']"
    unfolding scenario_heap_def by (rule deletion_scenario [OF rounding_id i])
  with rounding_id l show ?thesis by blast
qed

text \<open>
  C4. On the same timeline a patch of the span 5..10 by a clip of duration 7 (diff +2)
  leaves A as it is, extends the end of B to 12 and moves C to 12..17. This holds for
  every monotone rounding that leaves the whole numbers up to 17 as they are: the
  threshold \<open>10 - 0.1\<close> then lies between 9 and 10.
\<close>

theorem patch_scenario:
  assumes r: "rounding fl" and i: "\<forall>n\<le>17. fl (real n) = real n"
  shows "timeline_values (adjust_timeline_for_patch fl (base_heap h) base_timeline 5 10 7)
     = [mk_segment 0 5 ''A'', mk_segment 5 12 ''B'', mk_segment 12 17 ''C'']"
proof -
  have n: "fl 1 = 1" "fl 2 = 2" "fl 5 = 5" "fl 9 = 9" "fl 10 = 10" "fl 12 = 12" "fl 17 = 17"
    using i [rule_format, of 1] i [rule_format, of 2] i [rule_format, of 5]
      i [rule_format, of 9] i [rule_format, of 10] i [rule_format, of 12]
      i [rule_format, of 17] by simp_all
  have c: "0 \<le> fl (1 / 10) \<and> fl (1 / 10) \<le> 1"
    using between_representable [OF r _ n(1), of 0 "1 / 10"] r by (simp add: rounding_def)
  then have t: "9 \<le> fl (10 - fl (1 / 10)) \<and> fl (10 - fl (1 / 10)) \<le> 10"
    by (intro between_representable [OF r n(4) n(5)]) simp_all
  have d: "fl (7 - fl (10 - 5)) = 2" using n(2,3) by simp
  have A: "patch_item fl 5 10 7 (mk_segment 0 5 ''A'') = mk_segment 0 5 ''A''"
    using t by (simp add: patch_item_def mk_segment_def)
  have B: "patch_item fl 5 10 7 (mk_segment 5 10 ''B'') = mk_segment 5 12 ''B''"
    using t d n(6) by (simp add: patch_item_def mk_segment_def)
  have C: "patch_item fl 5 10 7 (mk_segment 10 15 ''C'') = mk_segment 12 17 ''C''"
    using t d n(6,7) by (simp add: patch_item_def mk_segment_def)
  have "timeline_values (adjust_timeline_for_patch fl (base_heap h) base_timeline 5 10 7)
      = map (patch_item fl 5 10 7) (map (base_heap h) base_timeline)"
    by (simp add: timeline_values_def adjust_timeline_for_patch_def patch_loop_eq
        in_place_distinct base_timeline_def)
  then show ?thesis by (simp add: base_heap_def base_timeline_def A B C)
qed

text \<open>C4 in exact arithmetic.\<close>

theorem patch_scenario_witness:
  "rounding id \<and> list_all (\<lambda>n. id (real n) = real n) [0..<18]
   \<and> timeline_values (adjust_timeline_for_patch id scenario_heap base_timeline 5 10 7)
     = [mk_segment 0 5 ''A'', mk_segment 5 12 ''B'', mk_segment 12 17 ''C'']"
proof -
  have i: "\<forall>n\<le>17. id (real n) = real n" by simp
  have l: "list_all (\<lambda>n. id (real n) = real n) [0..<18]" by (simp add: list_all_iff)
  have "timeline_values (adjust_timeline_for_patch id scenario_heap base_timeline 5 10 7)
     = [mk_segment 0 5 ''A'', mk_segment 5 12 ''B'', mk_segment 12 17 ''C'']"
    unfolding scenario_heap_def by (rule patch_scenario [OF rounding_id i])
  with rounding_id l show ?thesis by blast
qed

section \<open>The sentence merger\<close>

lemma pf_not_le: "a \<noteq> NaN \<Longrightarrow> b \<noteq> NaN \<Longrightarrow> \<not> pf_le a b \<Longrightarrow> pf_lt b a"
  by (cases a; cases b) simp_all

lemma pf_not_lt: "a \<noteq> NaN \<Longrightarrow> b \<noteq> NaN \<Longrightarrow> \<not> pf_lt a b \<Longrightarrow> pf_le b a"
  by (cases a; cases b) simp_all

lemma pf_le_lt_trans: "pf_le a b \<Longrightarrow> pf_lt b c \<Longrightarrow> pf_lt a c"
  by (cases a; cases b; cases c) simp_all

lemma merge_loop_Cons:
  "merge_loop d (item # rest) (merged, buffer) =
     (if discarded d item then merge_loop d rest (merged, buffer)
      else if closes (extend_buffer buffer (clamp_end d item))
      then merge_loop d rest (merged @ [extend_buffer buffer (clamp_end d item)], None)
      else merge_loop d rest (merged, Some (extend_buffer buffer (clamp_end d item))))"
  by (simp add: discarded_def clamp_end_def extend_buffer_def closes_def Let_def)

text \<open>
  The loop discards, clamps and accumulates: its result, with the open buffer emitted, is
  the accumulation over the fragments that pass the guards, their ends clamped.
\<close>

lemma merge_loop_accumulate:
  "(case merge_loop d raw (merged, buffer) of
      (m, None) \<Rightarrow> m
    | (m, Some b) \<Rightarrow> m @ [b])
   = merged @ accumulate buffer (map (clamp_end d) (filter (\<lambda>i. \<not> discarded d i) raw))"
proof (induction raw arbitrary: merged buffer)
  case Nil
  then show ?case by (simp split: option.splits)
next
  case (Cons item raw)
  show ?case
    by (simp only: merge_loop_Cons) (simp add: Cons.IH)
qed

lemma clamp_end_within:
  assumes "frag_start f \<noteq> NaN" "frag_end f \<noteq> NaN" "\<not> discarded d f"
  shows "within_duration d (clamp_end d f)"
    and "pf_lt (frag_start (clamp_end d f)) (frag_end (clamp_end d f))"
proof -
  have s: "pf_lt (frag_start f) (frag_end f)" "pf_lt (frag_start f) (Finite d)"
    using assms by (auto simp: discarded_def intro: pf_not_le)
  show "within_duration d (clamp_end d f)"
    using s assms(2) pf_not_lt [of "Finite d" "frag_end f"]
    by (auto simp: within_duration_def clamp_end_def)
  show "pf_lt (frag_start (clamp_end d f)) (frag_end (clamp_end d f))"
    using s by (simp add: clamp_end_def)
qed

lemma extend_buffer_times:
  "frag_end (extend_buffer buffer x) = frag_end x"
  "frag_start (extend_buffer buffer x)
     = (case buffer of None \<Rightarrow> frag_start x | Some b \<Rightarrow> frag_start b)"
  by (simp_all add: extend_buffer_def split: option.splits)

lemma accumulate_within:
  assumes "\<forall>b. buffer = Some b \<longrightarrow> within_duration d b"
    and "\<forall>x\<in>set xs. within_duration d x"
  shows "\<forall>s\<in>set (accumulate buffer xs). within_duration d s"
  using assms
proof (induction xs arbitrary: buffer)
  case Nil
  then show ?case by (simp split: option.splits)
next
  case (Cons x xs)
  have b1: "within_duration d (extend_buffer buffer x)"
  proof (cases buffer)
    case None
    then show ?thesis
      using Cons.prems(2) by (simp add: within_duration_def extend_buffer_times)
  next
    case (Some b)
    then have "within_duration d b" using Cons.prems(1) by simp
    then show ?thesis
      using Some Cons.prems(2) by (simp add: within_duration_def extend_buffer_times)
  qed
  have rest: "\<forall>x\<in>set xs. within_duration d x" using Cons.prems(2) by simp
  show ?case
  proof (cases "closes (extend_buffer buffer x)")
    case True
    have "\<forall>s\<in>set (accumulate None xs). within_duration d s"
      by (rule Cons.IH [OF _ rest]) simp
    then show ?thesis using True b1 by simp
  next
    case False
    have "\<forall>s\<in>set (accumulate (Some (extend_buffer buffer x)) xs). within_duration d s"
      by (rule Cons.IH [OF _ rest]) (simp add: b1)
    then show ?thesis using False by simp
  qed
qed

text \<open>
  When the starts do not decrease, the open buffer starts no later than every fragment
  still to come, so its start stays before the end it takes over.
\<close>

lemma accumulate_positive:
  assumes "\<forall>b. buffer = Some b \<longrightarrow>
        pf_lt (frag_start b) (frag_end b) \<and> (\<forall>x\<in>set xs. pf_le (frag_start b) (frag_start x))"
    and "\<forall>x\<in>set xs. pf_lt (frag_start x) (frag_end x)"
    and "sorted_wrt (\<lambda>a b. pf_le (frag_start a) (frag_start b)) xs"
  shows "\<forall>s\<in>set (accumulate buffer xs). pf_lt (frag_start s) (frag_end s)"
  using assms
proof (induction xs arbitrary: buffer)
  case Nil
  then show ?case by (simp split: option.splits)
next
  case (Cons x xs)
  let ?b1 = "extend_buffer buffer x"
  have x: "pf_lt (frag_start x) (frag_end x)" using Cons.prems(2) by simp
  have le: "\<forall>y\<in>set xs. pf_le (frag_start x) (frag_start y)"
    and srt: "sorted_wrt (\<lambda>a b. pf_le (frag_start a) (frag_start b)) xs"
    and rest: "\<forall>x\<in>set xs. pf_lt (frag_start x) (frag_end x)"
    using Cons.prems(2,3) by simp_all
  have b1: "pf_lt (frag_start ?b1) (frag_end ?b1)"
  proof (cases buffer)
    case None
    then show ?thesis using x by (simp add: extend_buffer_times)
  next
    case (Some b)
    then have "pf_le (frag_start b) (frag_start x)" using Cons.prems(1) by simp
    then show ?thesis using Some x by (simp add: extend_buffer_times pf_le_lt_trans)
  qed
  have b1': "\<forall>y\<in>set xs. pf_le (frag_start ?b1) (frag_start y)"
  proof (cases buffer)
    case None
    then show ?thesis using le by (simp add: extend_buffer_times)
  next
    case (Some b)
    then show ?thesis using Cons.prems(1) by (simp add: extend_buffer_times)
  qed
  show ?case
  proof (cases "closes ?b1")
    case True
    have "\<forall>s\<in>set (accumulate None xs). pf_lt (frag_start s) (frag_end s)"
      by (rule Cons.IH [OF _ rest srt]) simp
    then show ?thesis using True b1 by simp
  next
    case False
    have "\<forall>s\<in>set (accumulate (Some ?b1) xs). pf_lt (frag_start s) (frag_end s)"
      by (rule Cons.IH [OF _ rest srt]) (simp add: b1 b1')
    then show ?thesis using False by simp
  qed
qed

text \<open>
  C6, as stated, fails. Each of the fragments 5..6 "a" and 0..1 "b." passes the checks of
  the loop (start before end, start before the duration 10); the buffer keeps the start of
  the first and takes the end of the second, and the merger emits the segment 5..1 "a b.",
  whose start is not before its end.
\<close>

theorem merger_inverted_counterexample:
  "merge_fragments 10 [mk_fragment 5 6 ''a'', mk_fragment 0 1 ''b.''] = [mk_fragment 5 1 ''a b.'']
   \<and> \<not> pf_lt (frag_start (mk_fragment 5 1 ''a b.'')) (frag_end (mk_fragment 5 1 ''a b.''))"
  by (simp add: merge_fragments_def mk_fragment_def of_ascii_def strip_def py_isspace_def
      terminator_def)

text \<open>
  C6, amended. For every fragment list and every total duration the merger discards
  every fragment with start \<open>\<ge>\<close> end or start \<open>\<ge>\<close> total duration and clamps every end
  above the total duration to it: its output is what the accumulation (seed the buffer,
  extend its text and end, close it at a terminator, emit the open buffer at the end)
  gives on the remaining fragments with their clamped ends. When no time of a fragment is
  \<open>NaN\<close>, every emitted segment ends at or before the total duration and starts before
  it. When moreover the start times do not decrease along the list, every emitted segment
  has its start before its end.
\<close>

theorem merger_bounds:
  "merge_fragments real_duration raw_data
     = accumulate None
         (map (clamp_end real_duration) (filter (\<lambda>i. \<not> discarded real_duration i) raw_data))
   \<and> ((\<forall>f\<in>set raw_data. frag_start f \<noteq> NaN \<and> frag_end f \<noteq> NaN) \<longrightarrow>
        (\<forall>s\<in>set (merge_fragments real_duration raw_data).
           pf_le (frag_end s) (Finite real_duration)
           \<and> pf_lt (frag_start s) (Finite real_duration)))
   \<and> ((\<forall>f\<in>set raw_data. frag_start f \<noteq> NaN \<and> frag_end f \<noteq> NaN)
        \<and> sorted_wrt (\<lambda>a b. pf_le (frag_start a) (frag_start b)) raw_data \<longrightarrow>
        (\<forall>s\<in>set (merge_fragments real_duration raw_data).
           pf_lt (frag_start s) (frag_end s)))"
proof -
  let ?kept = "map (clamp_end real_duration)
      (filter (\<lambda>i. \<not> discarded real_duration i) raw_data)"
  have eq: "merge_fragments real_duration raw_data = accumulate None ?kept"
    using merge_loop_accumulate [of real_duration raw_data "[]" None]
    by (simp add: merge_fragments_def)
  have 1: "\<forall>s\<in>set (accumulate None ?kept).
      pf_le (frag_end s) (Finite real_duration) \<and> pf_lt (frag_start s) (Finite real_duration)"
    if n: "\<forall>f\<in>set raw_data. frag_start f \<noteq> NaN \<and> frag_end f \<noteq> NaN"
  proof -
    have "\<forall>x\<in>set ?kept. within_duration real_duration x"
      using n by (auto intro: clamp_end_within)
    then have "\<forall>s\<in>set (accumulate None ?kept). within_duration real_duration s"
      by (intro accumulate_within) simp_all
    then show ?thesis by (simp add: within_duration_def)
  qed
  have 2: "\<forall>s\<in>set (accumulate None ?kept). pf_lt (frag_start s) (frag_end s)"
    if n: "\<forall>f\<in>set raw_data. frag_start f \<noteq> NaN \<and> frag_end f \<noteq> NaN"
      and s: "sorted_wrt (\<lambda>a b. pf_le (frag_start a) (frag_start b)) raw_data"
  proof -
    have a: "\<forall>x\<in>set ?kept. pf_lt (frag_start x) (frag_end x)"
      using n by (auto intro: clamp_end_within)
    have st: "\<And>f. frag_start (clamp_end real_duration f) = frag_start f"
      by (simp add: clamp_end_def)
    have "sorted_wrt (\<lambda>a b. pf_le (frag_start a) (frag_start b))
        (filter (\<lambda>i. \<not> discarded real_duration i) raw_data)"
      using s by (rule sorted_wrt_filter)
    then have b: "sorted_wrt (\<lambda>a b. pf_le (frag_start a) (frag_start b)) ?kept"
      by (simp add: sorted_wrt_map st)
    show ?thesis by (rule accumulate_positive [OF _ a b]) simp
  qed
  from eq 1 2 show ?thesis by simp
qed

text \<open>
  The amended C6 on the fragments 0..2 "Hello", 1..1 "um", 2..7 "world." with the
  duration 5: no time is \<open>NaN\<close> and the starts do not decrease; the second fragment is
  discarded, the end of the third is clamped, and the one emitted segment is 0..5
  "Hello world.".
\<close>

theorem merger_bounds_witness:
  "list_all (\<lambda>f. frag_start f \<noteq> NaN \<and> frag_end f \<noteq> NaN)
       [mk_fragment 0 2 ''Hello'', mk_fragment 1 1 ''um'', mk_fragment 2 7 ''world.'']
   \<and> sorted_wrt (\<lambda>a b. pf_le (frag_start a) (frag_start b))
       [mk_fragment 0 2 ''Hello'', mk_fragment 1 1 ''um'', mk_fragment 2 7 ''world.'']
   \<and> merge_fragments 5
         [mk_fragment 0 2 ''Hello'', mk_fragment 1 1 ''um'', mk_fragment 2 7 ''world.'']
       = [mk_fragment 0 5 ''Hello world.'']
   \<and> list_all (\<lambda>s. pf_le (frag_end s) (Finite 5) \<and> pf_lt (frag_start s) (Finite 5)
                 \<and> pf_lt (frag_start s) (frag_end s))
       (merge_fragments 5
         [mk_fragment 0 2 ''Hello'', mk_fragment 1 1 ''um'', mk_fragment 2 7 ''world.''])"
proof -
  let ?raw = "[mk_fragment 0 2 ''Hello'', mk_fragment 1 1 ''um'', mk_fragment 2 7 ''world.'']"
  have n: "\<forall>f\<in>set ?raw. frag_start f \<noteq> NaN \<and> frag_end f \<noteq> NaN"
    by (simp add: mk_fragment_def)
  have s: "sorted_wrt (\<lambda>a b. pf_le (frag_start a) (frag_start b)) ?raw"
    by (simp add: mk_fragment_def)
  have k: "accumulate None (map (clamp_end 5) (filter (\<lambda>i. \<not> discarded 5 i) ?raw))
      = [mk_fragment 0 5 ''Hello world.'']"
    by (simp add: mk_fragment_def of_ascii_def discarded_def clamp_end_def extend_buffer_def
        closes_def strip_def py_isspace_def terminator_def)
  from merger_bounds [of 5 ?raw] n s k
  show ?thesis unfolding list_all_iff by auto
qed

section \<open>The text normalizer\<close>

lemma keep_char_not_space: "keep_char c \<Longrightarrow> \<not> py_isspace c"
  by (auto simp: keep_char_def py_isspace_def)

lemma space_is_space: "py_isspace 32"
  by (simp add: py_isspace_def)

lemma only_space_32: "keep_char c \<or> c = 32 \<Longrightarrow> py_isspace c \<longleftrightarrow> c = 32"
  using keep_char_not_space space_is_space by auto

lemma collapse_whitespace_Nil_iff: "collapse_whitespace xs = [] \<longleftrightarrow> xs = []"
  by (cases xs) auto

lemma hd_collapse_whitespace:
  "xs \<noteq> [] \<Longrightarrow> hd (collapse_whitespace xs) = (if py_isspace (hd xs) then 32 else hd xs)"
  by (cases xs) auto

lemma set_collapse_whitespace: "set (collapse_whitespace xs) \<subseteq> insert 32 (set xs)"
proof (induction xs rule: collapse_whitespace.induct)
  case 1
  then show ?case by simp
next
  case (2 c cs)
  have "set (dropWhile py_isspace cs) \<subseteq> set cs"
    by (rule set_dropWhileD [THEN subsetI])
  with 2 show ?case by auto
qed

lemma collapse_whitespace_single:
  "successively (\<lambda>a b. \<not> (py_isspace a \<and> py_isspace b)) (collapse_whitespace xs)"
proof (induction xs rule: collapse_whitespace.induct)
  case 1
  then show ?case by simp
next
  case (2 c cs)
  show ?case
  proof (cases "py_isspace c")
    case True
    let ?r = "dropWhile py_isspace cs"
    have "?r \<noteq> [] \<Longrightarrow> \<not> py_isspace (hd (collapse_whitespace ?r))"
      using hd_dropWhile [of py_isspace cs] by (simp add: hd_collapse_whitespace)
    then show ?thesis
      using True 2 by (auto simp: successively_Cons collapse_whitespace_Nil_iff)
  next
    case False
    then show ?thesis using 2 by (auto simp: successively_Cons)
  qed
qed

lemma collapse_whitespace_id:
  assumes "\<forall>c\<in>set xs. py_isspace c \<longrightarrow> c = 32"
    and "successively (\<lambda>a b. \<not> (py_isspace a \<and> py_isspace b)) xs"
  shows "collapse_whitespace xs = xs"
  using assms
proof (induction xs)
  case Nil
  then show ?case by simp
next
  case (Cons c cs)
  have ih: "collapse_whitespace cs = cs"
    using Cons by (auto simp: successively_Cons)
  show ?case
  proof (cases "py_isspace c")
    case True
    then have "cs = [] \<or> \<not> py_isspace (hd cs)"
      using Cons.prems(2) by (auto simp: successively_Cons)
    then have "dropWhile py_isspace cs = cs" by (cases cs) auto
    then show ?thesis using True Cons.prems(1) ih by simp
  next
    case False
    then show ?thesis using ih by simp
  qed
qed

lemma successively_dropWhile: "successively P xs \<Longrightarrow> successively P (dropWhile Q xs)"
  by (metis successively_append_iff takeWhile_dropWhile_id)

lemma strip_successively:
  assumes "successively R xs" and sym: "\<And>a b. R a b \<Longrightarrow> R b a"
  shows "successively R (strip xs)"
proof -
  have 1: "successively R (dropWhile py_isspace xs)"
    using assms(1) by (rule successively_dropWhile)
  have "successively (\<lambda>x y. R y x) (dropWhile py_isspace xs)"
    using 1 by (rule successively_mono) (rule sym)
  then have "successively R (rev (dropWhile py_isspace xs))" by simp
  then have 2: "successively R (dropWhile py_isspace (rev (dropWhile py_isspace xs)))"
    by (rule successively_dropWhile)
  have "successively (\<lambda>x y. R y x) (dropWhile py_isspace (rev (dropWhile py_isspace xs)))"
    using 2 by (rule successively_mono) (rule sym)
  then show ?thesis by (simp add: strip_def)
qed

lemma set_strip: "set (strip xs) \<subseteq> set xs"
  unfolding strip_def by (auto dest!: set_dropWhileD)

lemma strip_last: "strip xs \<noteq> [] \<Longrightarrow> \<not> py_isspace (last (strip xs))"
  unfolding strip_def by (simp add: last_rev hd_dropWhile)

lemma rstrip_hd:
  assumes "ys \<noteq> []" "\<not> py_isspace (hd ys)"
  shows "rev (dropWhile py_isspace (rev ys)) \<noteq> []
    \<and> hd (rev (dropWhile py_isspace (rev ys))) = hd ys"
proof -
  obtain y zs where ys: "ys = y # zs" using assms(1) by (cases ys) auto
  then have "dropWhile py_isspace (rev ys) = dropWhile py_isspace (rev zs) @ [y]"
    using assms(2) by (simp add: dropWhile_append3)
  then show ?thesis by (simp add: ys)
qed

lemma strip_hd: "strip xs \<noteq> [] \<Longrightarrow> \<not> py_isspace (hd (strip xs))"
proof -
  assume a: "strip xs \<noteq> []"
  let ?ys = "dropWhile py_isspace xs"
  have "?ys = [] \<Longrightarrow> strip xs = []"
    unfolding strip_def by (simp only: rev.simps dropWhile.simps)
  then have ne: "?ys \<noteq> []" using a by blast
  then have "\<not> py_isspace (hd ?ys)" by (rule hd_dropWhile)
  with ne rstrip_hd [of ?ys] show ?thesis by (simp add: strip_def)
qed

lemma strip_id:
  assumes "xs = [] \<or> (\<not> py_isspace (hd xs) \<and> \<not> py_isspace (last xs))"
  shows "strip xs = xs"
proof (cases "xs = []")
  case True
  then show ?thesis by (simp add: strip_def)
next
  case False
  then have h: "\<not> py_isspace (hd xs)" and l: "\<not> py_isspace (last xs)"
    using assms by auto
  have 1: "dropWhile py_isspace xs = xs" using False h by (cases xs) auto
  obtain y ys where r: "rev xs = y # ys" using False by (cases "rev xs") auto
  have "hd (rev xs) = last xs" using False by (simp add: hd_rev)
  then have "y = last xs" unfolding r by simp
  then have "dropWhile py_isspace (y # ys) = y # ys" using l by simp
  then have 2: "dropWhile py_isspace (rev xs) = rev xs" unfolding r .
  show ?thesis by (simp add: strip_def 1 2)
qed

lemma normalize_canonical: "canonical_text (normalize_text_strict t)"
proof -
  let ?t1 = "map (\<lambda>c. if keep_char c then c else 32) t"
  let ?t2 = "collapse_whitespace ?t1"
  let ?out = "strip ?t2"
  have e1: "\<forall>c\<in>set ?t1. keep_char c \<or> c = 32" by auto
  have e2: "\<forall>c\<in>set ?t2. keep_char c \<or> c = 32"
    using set_collapse_whitespace [of ?t1] e1 by blast
  have e3: "\<forall>c\<in>set ?out. keep_char c \<or> c = 32"
    using set_strip [of ?t2] e2 by blast
  have "successively (\<lambda>a b. \<not> (py_isspace a \<and> py_isspace b)) ?out"
    by (rule strip_successively) (use collapse_whitespace_single in auto)
  then have "successively (\<lambda>a b. \<not> (a = 32 \<and> b = 32)) ?out"
    by (rule successively_mono) (use space_is_space in auto)
  moreover have "?out = [] \<or> (\<not> py_isspace (hd ?out) \<and> \<not> py_isspace (last ?out))"
    using strip_hd strip_last by blast
  ultimately show ?thesis
    using e3 by (simp add: canonical_text_def normalize_text_strict_def)
qed

lemma normalize_fixed:
  assumes "canonical_text out"
  shows "normalize_text_strict out = out"
proof -
  have e: "\<forall>c\<in>set out. keep_char c \<or> c = 32"
    using assms by (simp add: canonical_text_def)
  then have 1: "map (\<lambda>c. if keep_char c then c else 32) out = out"
    by (induction out) auto
  have "successively (\<lambda>a b. \<not> (a = 32 \<and> b = 32)) out"
    using assms by (simp add: canonical_text_def)
  then have "successively (\<lambda>a b. \<not> (py_isspace a \<and> py_isspace b)) out"
    by (rule successively_mono) (use e only_space_32 in auto)
  then have 2: "collapse_whitespace out = out"
    using e only_space_32 by (intro collapse_whitespace_id) auto
  have 3: "strip out = out"
    using assms by (intro strip_id) (simp add: canonical_text_def)
  show ?thesis by (simp add: normalize_text_strict_def 1 2 3)
qed

text \<open>
  C10. For every input string the output of \<open>normalize_text_strict\<close> contains only
  Hangul syllables, ASCII letters, digits and the space character (code point 32), no two
  spaces are adjacent, the output is empty or it neither begins nor ends with white space,
  and normalizing the output again returns it unchanged.
\<close>

theorem normalize_text_strict_canonical:
  "(\<forall>c\<in>set (normalize_text_strict t). keep_char c \<or> c = 32)
   \<and> successively (\<lambda>a b. \<not> (a = 32 \<and> b = 32)) (normalize_text_strict t)
   \<and> (normalize_text_strict t = [] \<or>
        (\<not> py_isspace (hd (normalize_text_strict t))
         \<and> \<not> py_isspace (last (normalize_text_strict t))))
   \<and> normalize_text_strict (normalize_text_strict t) = normalize_text_strict t"
  using normalize_canonical [of t] normalize_fixed [OF normalize_canonical [of t]]
  by (simp add: canonical_text_def)

text \<open>
  C10 on the input "  Hello,   world!! 42 ": the output is "Hello world 42", and it is
  a fixed point.
\<close>

theorem normalize_text_strict_canonical_witness:
  "normalize_text_strict (of_ascii ''  Hello,   world!! 42 '') = of_ascii ''Hello world 42''
   \<and> list_all (\<lambda>c. keep_char c \<or> c = 32) (of_ascii ''Hello world 42'')
   \<and> normalize_text_strict (of_ascii ''Hello world 42'') = of_ascii ''Hello world 42''"
proof -
  have a: "normalize_text_strict (of_ascii ''  Hello,   world!! 42 '') = of_ascii ''Hello world 42''"
    by (simp add: normalize_text_strict_def of_ascii_def keep_char_def py_isspace_def strip_def)
  from normalize_text_strict_canonical [of "of_ascii ''  Hello,   world!! 42 ''"]
  show ?thesis unfolding a list_all_iff by blast
qed

section \<open>The container normalizer\<close>

text \<open>
  What holds of \<open>add_silence_padding\<close>: it returns \<open>None\<close> for a payload that is
  absent, empty or shorter than 100 bytes; for a payload of at least 100 bytes that does
  not begin with \<open>RIFF\<close>, and likewise for one that begins with \<open>RIFF\<close> but on which
  the reader raises \<open>wave.Error\<close>, the result is what the writer makes of the profile
  1 channel, 2 bytes per sample, 24000 Hz and of the silence followed by the entire
  payload.
\<close>

lemma add_silence_padding_fallback:
  "((\<forall>b. audio_bytes = Some b \<longrightarrow> length b < 100)
      \<longrightarrow> add_silence_padding fl wave_read wave_write audio_bytes duration_sec = None)
   \<and> (100 \<le> length payload \<and> (take 4 payload \<noteq> RIFF \<or> wave_read payload = WaveError)
      \<longrightarrow> add_silence_padding fl wave_read wave_write (Some payload) duration_sec
          = wave_write 1 2 24000
              (replicate (nat (py_int (fl (24000 * duration_sec)) * 2)) 0 @ payload))"
  by (cases audio_bytes) (auto simp: add_silence_padding_def Let_def)

text \<open>
  C8. The claim's last part fails on the code. When the payload begins with \<open>RIFF\<close> and
  the reader fails with an exception other than \<open>wave.Error\<close>, as the library's reader
  does with \<open>EOFError\<close> on a format chunk that is cut short, the handler for
  \<open>wave.Error\<close> is passed by, the outer handler takes the exception and the function
  returns \<open>None\<close>: the payload is not treated as raw PCM.
\<close>

theorem add_silence_padding_other_exception:
  "100 \<le> length payload \<and> take 4 payload = RIFF \<and> wave_read payload = OtherException
   \<longrightarrow> add_silence_padding fl wave_read wave_write (Some payload) duration_sec = None"
  by (auto simp: add_silence_padding_def)

text \<open>
  C8 at the payload of 100 bytes with the format chunk cut short, with a reader that
  raises \<open>EOFError\<close> on it and a writer that returns the frames it is given: the
  function returns \<open>None\<close>, where the fallback would give the payload behind the
  silence.
\<close>

theorem add_silence_padding_other_exception_witness:
  "length truncated_fmt_wav = 100 \<and> take 4 truncated_fmt_wav = RIFF
   \<and> add_silence_padding id (\<lambda>_. OtherException) (\<lambda>c s f d. Some d)
        (Some truncated_fmt_wav) (1 / 2) = None
   \<and> (\<lambda>c s f d. Some d) 1 2 24000
        (replicate (nat (py_int (id (24000 * (1 / 2))) * 2)) (0::byte) @ truncated_fmt_wav)
      \<noteq> None"
proof -
  have a: "length truncated_fmt_wav = 100" "take 4 truncated_fmt_wav = RIFF"
    by (simp_all add: truncated_fmt_wav_def RIFF_def)
  from add_silence_padding_other_exception [of truncated_fmt_wav "\<lambda>_. OtherException" id
      "\<lambda>c s f d. Some d" "1 / 2"] a
  show ?thesis by simp
qed

section \<open>The edit buttons commit audio and timeline together\<close>

text \<open>
  C9. In the deletion handler and in the patch handler, when the splice
  (\<open>delete_audio_range\<close>, \<open>patch_audio_segment\<close>) returns \<open>None\<close> the state is left as it
  was: the audio file, the session timeline and the segment objects are unchanged. In
  every case the handler either leaves the state as it was, or the splice has returned
  audio that is now in the file and, when the session holds a timeline, that timeline has
  been re-indexed with the matching transform: audio and timeline change together.
\<close>

theorem edit_buttons_gated_by_splice:
  "((\<forall>orig. audio_file s = Some orig \<longrightarrow> delete_audio_range orig del_start del_end = None)
      \<longrightarrow> delete_button fl delete_audio_range s del_start del_end = s)
   \<and> (delete_button fl delete_audio_range s del_start del_end = s
      \<or> (\<exists>orig new_audio. audio_file s = Some orig
            \<and> delete_audio_range orig del_start del_end = Some new_audio
            \<and> delete_button fl delete_audio_range s del_start del_end
                = commit s new_audio
                    (\<lambda>old_timeline.
                       adjust_timeline_for_deletion fl (objects s) old_timeline
                         del_start del_end)))
   \<and> ((\<forall>orig new_part. audio_file s = Some orig
           \<longrightarrow> patch_audio_segment orig new_part start_time end_time = None)
      \<longrightarrow> patch_button fl wave_read wave_write measure_duration patch_audio_segment s patch_text
            raw_audio start_time end_time = s)
   \<and> (patch_button fl wave_read wave_write measure_duration patch_audio_segment s patch_text
          raw_audio start_time end_time = s
      \<or> (\<exists>orig new_part new_duration patched. audio_file s = Some orig
            \<and> add_silence_padding fl wave_read wave_write raw_audio (fl (1 / 10)) = Some new_part
            \<and> measure_duration new_part = Some new_duration
            \<and> patch_audio_segment orig new_part start_time end_time = Some patched
            \<and> patch_button fl wave_read wave_write measure_duration patch_audio_segment s
                  patch_text raw_audio start_time end_time
                = commit s patched
                    (\<lambda>old_timeline.
                       adjust_timeline_for_patch fl (objects s) old_timeline
                         start_time end_time new_duration)))"
proof (intro conjI)
  show "(\<forall>orig. audio_file s = Some orig \<longrightarrow> delete_audio_range orig del_start del_end = None)
      \<longrightarrow> delete_button fl delete_audio_range s del_start del_end = s"
    by (auto simp: delete_button_def split: option.splits)
  show "delete_button fl delete_audio_range s del_start del_end = s
      \<or> (\<exists>orig new_audio. audio_file s = Some orig
            \<and> delete_audio_range orig del_start del_end = Some new_audio
            \<and> delete_button fl delete_audio_range s del_start del_end
                = commit s new_audio
                    (\<lambda>old_timeline.
                       adjust_timeline_for_deletion fl (objects s) old_timeline
                         del_start del_end))"
    by (auto simp: delete_button_def commit_def Let_def split: option.splits prod.splits)
  show "(\<forall>orig new_part. audio_file s = Some orig
           \<longrightarrow> patch_audio_segment orig new_part start_time end_time = None)
      \<longrightarrow> patch_button fl wave_read wave_write measure_duration patch_audio_segment s patch_text
            raw_audio start_time end_time = s"
    by (auto simp: patch_button_def split: option.splits)
  show "patch_button fl wave_read wave_write measure_duration patch_audio_segment s patch_text
          raw_audio start_time end_time = s
      \<or> (\<exists>orig new_part new_duration patched. audio_file s = Some orig
            \<and> add_silence_padding fl wave_read wave_write raw_audio (fl (1 / 10)) = Some new_part
            \<and> measure_duration new_part = Some new_duration
            \<and> patch_audio_segment orig new_part start_time end_time = Some patched
            \<and> patch_button fl wave_read wave_write measure_duration patch_audio_segment s
                  patch_text raw_audio start_time end_time
                = commit s patched
                    (\<lambda>old_timeline.
                       adjust_timeline_for_patch fl (objects s) old_timeline
                         start_time end_time new_duration))"
    by (auto simp: patch_button_def commit_def Let_def split: option.splits prod.splits)
qed

text \<open>
  C9 on a session that holds the audio bytes [1] and the scenario timeline, in exact
  arithmetic. A deletion whose splice returns \<open>None\<close> leaves the session as it was; one
  whose splice returns the bytes [2] puts them in the file and re-indexes the timeline; a
  patch whose splice returns \<open>None\<close> leaves the session as it was.
\<close>

theorem edit_buttons_gated_by_splice_witness:
  "delete_button id (\<lambda>b s e. None) scenario_session 6 8 = scenario_session
   \<and> audio_file (delete_button id (\<lambda>b s e. Some [2]) scenario_session 6 8) = Some [2]
   \<and> delete_button id (\<lambda>b s e. Some [2]) scenario_session 6 8
       = commit scenario_session [2]
           (\<lambda>old_timeline. adjust_timeline_for_deletion id scenario_heap old_timeline 6 8)
   \<and> patch_button id (\<lambda>_. WaveError) (\<lambda>c s f d. Some d) (\<lambda>_. Some 7) (\<lambda>orig new s e. None)
       scenario_session (of_ascii ''B'') (Some (replicate 100 0)) 5 10 = scenario_session"
proof -
  have 1: "delete_button id (\<lambda>b s e. None) scenario_session 6 8 = scenario_session"
    using edit_buttons_gated_by_splice [where s = scenario_session and fl = id
        and delete_audio_range = "\<lambda>b s e. None" and del_start = 6 and del_end = 8]
    by simp
  have 2: "audio_file (delete_button id (\<lambda>b s e. Some [2]) scenario_session 6 8) = Some [2]"
    by (simp add: delete_button_def scenario_session_def Let_def split: prod.splits)
  then have ne: "delete_button id (\<lambda>b s e. Some [2]) scenario_session 6 8 \<noteq> scenario_session"
    by (auto simp: scenario_session_def)
  have o: "objects scenario_session = scenario_heap"
    by (simp add: scenario_session_def)
  have 3: "delete_button id (\<lambda>b s e. Some [2]) scenario_session 6 8
       = commit scenario_session [2]
           (\<lambda>old_timeline. adjust_timeline_for_deletion id scenario_heap old_timeline 6 8)"
    using edit_buttons_gated_by_splice [where s = scenario_session and fl = id
        and delete_audio_range = "\<lambda>b s e. Some [2]" and del_start = 6 and del_end = 8]
      ne o
    by auto
  have 4: "patch_button id (\<lambda>_. WaveError) (\<lambda>c s f d. Some d) (\<lambda>_. Some 7)
       (\<lambda>orig new s e. None)
       scenario_session (of_ascii ''B'') (Some (replicate 100 0)) 5 10 = scenario_session"
    using edit_buttons_gated_by_splice [where s = scenario_session and fl = id
        and patch_audio_segment = "\<lambda>orig new s e. None" and start_time = 5 and end_time = 10
        and wave_read = "\<lambda>_. WaveError" and wave_write = "\<lambda>c s f d. Some d"
        and measure_duration = "\<lambda>_. Some 7" and patch_text = "of_ascii ''B''"
        and raw_audio = "Some (replicate 100 0)"]
    by simp
  from 1 2 3 4 show ?thesis by blast
qed

end
